theory Spec2Isabelle
  imports Complex_Main "HOL-Library.Log_Nat"
begin

section \<open>The MADRID anomaly detector (\<^verbatim>\<open>aeon/anomaly_detection/_madrid.py\<close>)\<close>

text \<open>
  A shallow embedding of the class \<^verbatim>\<open>MADRID\<close>, for CPython on a 64-bit platform. Python
  integers are \<open>int\<close>. A series is a list of finite float values, each written as the
  rational it denotes. Every \<^verbatim>\<open>raise\<close> of the source is a value \<open>Inl e\<close> of the result
  type. The methods keep their names without the leading underscores: \<open>init\<close> is
  \<^verbatim>\<open>__init__\<close>, \<open>predict\<close> is \<^verbatim>\<open>_predict\<close>, \<open>contains_constant_regions\<close> is
  \<^verbatim>\<open>_contains_constant_regions\<close> and \<open>estimate_processing_time\<close> is
  \<^verbatim>\<open>_estimate_processing_time\<close>.

  Floating point enters the source in three places, and each is modelled as follows.
  \<^item> The division \<^verbatim>\<open>a / b\<close> of two Python integers gives the float nearest to the
    quotient; \<open>int_true_div\<close> computes that float.
  \<^item> \<^verbatim>\<open>np.var\<close> is a library function whose float summation order is numpy's own
    affair; the model takes it as a parameter \<open>np_var\<close>, and the theorems hold for
    whatever value it returns.
  \<^item> \<^verbatim>\<open>np.polyval\<close> is a library function too; it is evaluated by Horner's rule, as
    numpy does, but without rounding, on the coefficients as the decimal numbers that the
    source writes. The theorems about predicted times are about these exact values.
  The failure of an allocation (\<^verbatim>\<open>MemoryError\<close>, or numpy's refusal of an array that is
  too big) is not modelled.
\<close>

subsection \<open>Errors and values\<close>

text \<open>
  The source raises \<^verbatim>\<open>ValueError\<close> in four places, told apart by their messages; the
  constructors of \<open>value_error\<close> name the place. \<open>NegativeDimensions\<close>,
  \<open>RangeStepZero\<close> and \<open>MaxOfEmpty\<close> are the \<^verbatim>\<open>ValueError\<close>s of \<^verbatim>\<open>np.full\<close>,
  \<^verbatim>\<open>range\<close> and \<^verbatim>\<open>max\<close>.
\<close>

datatype value_error =
    StepSizeNotPositive
  | BothEstimateTimeAndFactor
  | SeriesTooShort int int
  | ConstantRegion
  | NegativeDimensions
  | RangeStepZero
  | MaxOfEmpty

datatype error =
    ValueError value_error
  | TypeError
  | IndexError
  | ZeroDivisionError
  | OverflowError
  | AttributeError

text \<open>What a call can return: \<^verbatim>\<open>None\<close>, or an array of booleans.\<close>

datatype pyval = PyNone | NdArray "bool list"

text \<open>
  Sequencing of calls that can raise: the first error ends the computation.
\<close>

definition bind_err :: "error + 'a \<Rightarrow> ('a \<Rightarrow> error + 'b) \<Rightarrow> error + 'b" where
  "bind_err m f = (case m of Inl e \<Rightarrow> Inl e | Inr x \<Rightarrow> f x)"

subsection \<open>The detector and its constructor\<close>

record madrid =
  min_length :: int
  max_length :: int
  split_psn :: int
  step_size :: int

text \<open>
  An optional integer argument is \<open>int option\<close> (\<open>None\<close> for Python's \<^verbatim>\<open>None\<close>); it is
  truthy when it is given and not zero.
\<close>

definition truthy :: "int option \<Rightarrow> bool" where
  "truthy v = (case v of None \<Rightarrow> False | Some n \<Rightarrow> n \<noteq> 0)"

text \<open>
  \<^verbatim>\<open>__init__(self, min_length, max_length, step_size=1, split_psn=None)\<close>: the check of
  \<^verbatim>\<open>step_size\<close> comes before \<^verbatim>\<open>split_psn\<close> is looked at.
\<close>

definition init :: "int \<Rightarrow> int \<Rightarrow> int \<Rightarrow> int option \<Rightarrow> error + madrid" where
  "init min_len max_len step split =
     (if step \<le> 0 then Inl (ValueError StepSizeNotPositive)
      else Inr \<lparr> min_length = min_len,
                 max_length = max_len,
                 split_psn = (if truthy split then the split else max_len + 1),
                 step_size = step \<rparr>)"

subsection \<open>Builtins and numpy functions the detector calls\<close>

text \<open>
  \<^verbatim>\<open>a / b\<close> on two Python integers: the quotient rounded to the nearest binary64 float,
  ties to the even significand; \<^verbatim>\<open>ZeroDivisionError\<close> on a zero divisor and
  \<^verbatim>\<open>OverflowError\<close> when the rounded quotient is beyond the largest float.
  \<open>binary_exponent p q\<close> is \<open>\<lfloor>log\<^sub>2 (p / q)\<rfloor>\<close> for positive \<open>p\<close> and \<open>q\<close>. A
  float with binary exponent \<open>e\<close> is a multiple of \<open>2\<^sup>e\<^sup>-\<^sup>5\<^sup>2\<close>, of \<open>2\<^sup>-\<^sup>1\<^sup>0\<^sup>7\<^sup>4\<close> when it
  is subnormal (\<open>e < -1022\<close>).
\<close>

definition round_half_even :: "rat \<Rightarrow> int" where
  "round_half_even y =
     (let f = \<lfloor>y\<rfloor>; r = y - of_int f
      in if r < 1 / 2 then f else if 1 / 2 < r then f + 1 else if even f then f else f + 1)"

definition binary_exponent :: "int \<Rightarrow> int \<Rightarrow> int" where
  "binary_exponent p q =
     (let d = bitlen p - bitlen q
      in if (of_int q :: rat) * 2 powi d \<le> of_int p then d else d - 1)"

definition int_true_div :: "int \<Rightarrow> int \<Rightarrow> error + rat" where
  "int_true_div a b =
     (if b = 0 then Inl ZeroDivisionError
      else if a = 0 then Inr 0
      else
        let e = max (binary_exponent \<bar>a\<bar> \<bar>b\<bar>) (- 1022);
            quantum = 2 powi (e - 52);
            r = of_int (round_half_even (of_int a / of_int b / quantum)) * quantum
        in if 2 ^ 1024 \<le> \<bar>r\<bar> then Inl OverflowError else Inr r)"

text \<open>
  \<^verbatim>\<open>math.ceil(a / b)\<close> and \<^verbatim>\<open>int(np.ceil(a / b))\<close> on integers: the division in floats,
  then the ceiling of the float, which is exact.
\<close>

definition ceil_div :: "int \<Rightarrow> int \<Rightarrow> error + int" where
  "ceil_div a b = bind_err (int_true_div a b) (\<lambda>x. Inr \<lceil>x\<rceil>)"

text \<open>
  \<^verbatim>\<open>len(range(start, stop, step))\<close>. A step of zero is a \<^verbatim>\<open>ValueError\<close> of \<^verbatim>\<open>range\<close>.
  Python computes the length of a range in closed form, without running through it, and
  \<^verbatim>\<open>len\<close> raises \<^verbatim>\<open>OverflowError\<close> when the length is above \<^verbatim>\<open>sys.maxsize\<close>, which is
  \<open>2\<^sup>6\<^sup>3 - 1\<close>.
\<close>

definition range_length :: "int \<Rightarrow> int \<Rightarrow> int \<Rightarrow> int" where
  "range_length start stop step =
     (if 0 < step then (if start < stop then (stop - start - 1) div step + 1 else 0)
      else (if stop < start then (start - stop - 1) div (- step) + 1 else 0))"

definition len_range :: "int \<Rightarrow> int \<Rightarrow> int \<Rightarrow> error + int" where
  "len_range start stop step =
     (if step = 0 then Inl (ValueError RangeStepZero)
      else if 2 ^ 63 - 1 < range_length start stop step then Inl OverflowError
      else Inr (range_length start stop step))"

text \<open>\<^verbatim>\<open>np.polyval(p, x)\<close>: Horner's rule, highest coefficient first.\<close>

definition polyval :: "rat list \<Rightarrow> rat \<Rightarrow> rat" where
  "polyval p x = foldl (\<lambda>y pv. y * x + pv) 0 p"

text \<open>
  \<^verbatim>\<open>np.diff(a)\<close>: \<open>out[i] = a[i+1] - a[i]\<close>, one element shorter than \<open>a\<close>. On finite
  floats the rounded difference is zero exactly when the two values are equal, so the
  test \<^verbatim>\<open>np.diff(X) != 0\<close> of the source is the same on the exact difference.
\<close>

definition np_diff :: "'a::minus list \<Rightarrow> 'a list" where
  "np_diff a = map (\<lambda>(x, y). y - x) (zip a (tl a))"

text \<open>\<^verbatim>\<open>np.where(cond)[0]\<close>: the indices at which \<open>cond\<close> holds, ascending.\<close>

definition np_where :: "bool list \<Rightarrow> int list" where
  "np_where cond = map int (filter (\<lambda>i. cond ! i) [0..<length cond])"

text \<open>\<^verbatim>\<open>max(a)\<close>: a \<^verbatim>\<open>ValueError\<close> on an empty sequence.\<close>

definition py_max :: "int list \<Rightarrow> error + int" where
  "py_max a = (case a of [] \<Rightarrow> Inl (ValueError MaxOfEmpty) | x # xs \<Rightarrow> Inr (fold max xs x))"

text \<open>
  What \<^verbatim>\<open>np.var(X)\<close> returns is a float: a finite value, an infinity or \<^verbatim>\<open>nan\<close>. The
  literal \<^verbatim>\<open>0.2\<close> of the source is the float nearest to one fifth,
  \<open>3602879701896397 / 2\<^sup>5\<^sup>4\<close>, just above it; no float lies between the two, so a float is
  below the literal exactly when it is below one fifth. A comparison with \<^verbatim>\<open>nan\<close> is
  false.
\<close>

datatype float64 = Finite rat | PosInf | NegInf | NaN

definition float_0_2 :: rat where
  "float_0_2 = 3602879701896397 / 2 ^ 54"

definition float64_less :: "float64 \<Rightarrow> rat \<Rightarrow> bool" where
  "float64_less v t =
     (case v of Finite x \<Rightarrow> x < t | NegInf \<Rightarrow> True | PosInf \<Rightarrow> False | NaN \<Rightarrow> False)"

text \<open>
  \<^verbatim>\<open>np.arange(start, stop, step)\<close> on integers: numpy divides \<open>stop - start\<close> by
  \<open>step\<close> as Python does, takes the ceiling for the number of elements (none when that is
  negative), and puts \<open>start + i * step\<close> at index \<open>i\<close>.
\<close>

definition np_arange :: "int \<Rightarrow> int \<Rightarrow> int \<Rightarrow> error + int list" where
  "np_arange start stop step =
     bind_err (ceil_div (stop - start) step) (\<lambda>n.
     Inr (map (\<lambda>i. start + int i * step) [0..<nat n]))"

text \<open>
  \<^verbatim>\<open>a[i]\<close> on a one-dimensional array: a negative index counts from the end, an index
  out of bounds is an \<^verbatim>\<open>IndexError\<close>.
\<close>

definition np_index :: "'a list \<Rightarrow> int \<Rightarrow> error + 'a" where
  "np_index a i =
     (if 0 \<le> i \<and> i < int (length a) then Inr (a ! nat i)
      else if - int (length a) \<le> i \<and> i < 0 then Inr (a ! nat (int (length a) + i))
      else Inl IndexError)"

subsection \<open>The runtime estimator\<close>

text \<open>The coefficient lists of \<^verbatim>\<open>_estimate_processing_time\<close>, as the source writes them.\<close>

definition poly6_p_1 :: "rat list" where
  "poly6_p_1 =
     [- 4.66922312132205 / 10 ^ 45,
      1.54665628995475 / 10 ^ 35,
      - 1.29314859463985 / 10 ^ 26,
      2.01592418847342 / 10 ^ 18,
      - 2.54253065977245 / 10 ^ 11,
      9.77027495487874 / 10 ^ 5,
      - 1.27055582771851 / 10 ^ 5]"

definition poly6_p_2 :: "rat list" where
  "poly6_p_2 =
     [- 3.79100071825804 / 10 ^ 42,
      3.15547030055575 / 10 ^ 33,
      - 6.62877819318290 / 10 ^ 25,
      2.59437174380763 / 10 ^ 17,
      - 8.10970871564789 / 10 ^ 11,
      7.25344313152170 / 10 ^ 5,
      4.68415490390476 / 10 ^ 7]"

definition linear_p_1 :: "rat list" where
  "linear_p_1 = [3.90752957831437 / 10 ^ 5, 0]"

definition linear_p_2 :: "rat list" where
  "linear_p_2 = [1.94005690535588 / 10 ^ 5, 0]"

definition linear_p_4 :: "rat list" where
  "linear_p_4 = [1.26834880558841 / 10 ^ 5, 0]"

definition linear_p_8 :: "rat list" where
  "linear_p_8 = [1.42210521045333 / 10 ^ 5, 0]"

definition linear_p_16 :: "rat list" where
  "linear_p_16 = [1.82290885539705 / 10 ^ 5, 0]"

text \<open>
  The product that the source writes out six times, for the value of \<^verbatim>\<open>factor\<close> set just
  before:
  \<^verbatim>\<open>len(range(1, len_x - self.split_psn, factor)) *
  len(range(math.ceil(self.min_length / factor), math.ceil(self.max_length / factor),
  self.step_size))\<close>
\<close>

definition problem_size :: "madrid \<Rightarrow> int \<Rightarrow> int \<Rightarrow> error + int" where
  "problem_size self len_x factor =
     bind_err (len_range 1 (len_x - split_psn self) factor) (\<lambda>positions.
     bind_err (ceil_div (min_length self) factor) (\<lambda>first_length.
     bind_err (ceil_div (max_length self) factor) (\<lambda>stop_length.
     bind_err (len_range first_length stop_length (step_size self)) (\<lambda>lengths.
     Inr (positions * lengths)))))"

text \<open>The local variables of \<^verbatim>\<open>_estimate_processing_time\<close> when its last statement is done.\<close>

record estimate =
  p_1 :: "rat list"
  p_2 :: "rat list"
  p_4 :: "rat list"
  p_8 :: "rat list"
  p_16 :: "rat list"
  predicted_execution_time_16 :: rat
  predicted_execution_time_8 :: rat
  predicted_execution_time_4 :: rat
  predicted_execution_time_2 :: rat
  predicted_execution_time_1 :: rat

definition estimate_locals :: "madrid \<Rightarrow> int \<Rightarrow> error + estimate" where
  "estimate_locals self len_x =
     bind_err (problem_size self len_x 1) (\<lambda>size_if.
     let p1 = (if size_if < 5000000 then poly6_p_1 else linear_p_1);
         p2 = (if size_if < 5000000 then poly6_p_2 else linear_p_2)
     in
     bind_err (problem_size self len_x 16) (\<lambda>size_16.
     bind_err (problem_size self len_x 8) (\<lambda>size_8.
     bind_err (problem_size self len_x 4) (\<lambda>size_4.
     bind_err (problem_size self len_x 2) (\<lambda>size_2.
     bind_err (problem_size self len_x 1) (\<lambda>size_1.
     Inr \<lparr> p_1 = p1, p_2 = p2,
           p_4 = linear_p_4, p_8 = linear_p_8, p_16 = linear_p_16,
           predicted_execution_time_16 = polyval linear_p_16 (of_int size_16),
           predicted_execution_time_8 = polyval linear_p_8 (of_int size_8),
           predicted_execution_time_4 = polyval linear_p_4 (of_int size_4),
           predicted_execution_time_2 = polyval p2 (of_int size_2),
           predicted_execution_time_1 = polyval p1 (of_int size_1) \<rparr>))))))"

text \<open>
  \<^verbatim>\<open>_estimate_processing_time(self, len_x)\<close> has no \<^verbatim>\<open>return\<close> statement: when nothing
  raises, the call returns \<^verbatim>\<open>None\<close> and its local variables are dropped.
\<close>

definition estimate_processing_time :: "madrid \<Rightarrow> int \<Rightarrow> error + pyval" where
  "estimate_processing_time self len_x =
     bind_err (estimate_locals self len_x) (\<lambda>locals. Inr PyNone)"

text \<open>
  A call of the method with a list of positional arguments, the receiver first: Python
  binds them to the parameters \<^verbatim>\<open>(self, len_x)\<close>, and any other number of arguments
  is a \<^verbatim>\<open>TypeError\<close> raised before the body runs. With two arguments of the wrong
  kind the body fails: \<^verbatim>\<open>len_x - self.split_psn\<close> is a \<^verbatim>\<open>TypeError\<close> on a detector,
  \<^verbatim>\<open>self.split_psn\<close> an \<^verbatim>\<open>AttributeError\<close> on an integer.
\<close>

datatype arg = Obj madrid | Num int

fun call_estimate_processing_time :: "arg list \<Rightarrow> error + pyval" where
  "call_estimate_processing_time [Obj self, Num len_x] = estimate_processing_time self len_x"
| "call_estimate_processing_time [Obj self, Obj other] = Inl TypeError"
| "call_estimate_processing_time [Num n, other] = Inl AttributeError"
| "call_estimate_processing_time args = Inl TypeError"

subsection \<open>The input guard and the detection entry point\<close>

text \<open>
  \<^verbatim>\<open>_contains_constant_regions(self, X, sub_sequence_length)\<close>; it does not read
  \<^verbatim>\<open>self\<close>. Its local \<^verbatim>\<open>constant_indices\<close>, after the second assignment, and its local
  \<^verbatim>\<open>constant_lengths\<close> are definitions of their own, so that theorems can speak of
  them. The parameter \<open>np_var\<close> is numpy's \<^verbatim>\<open>np.var\<close>.
\<close>

definition constant_indices :: "rat list \<Rightarrow> int list" where
  "constant_indices X =
     [0] @ map (\<lambda>i. i + 1) (np_where (map (\<lambda>d. d \<noteq> 0) (np_diff X))) @ [int (length X)]"

definition constant_lengths :: "rat list \<Rightarrow> int list" where
  "constant_lengths X = np_diff (constant_indices X)"

definition contains_constant_regions ::
    "(rat list \<Rightarrow> float64) \<Rightarrow> rat list \<Rightarrow> int \<Rightarrow> error + bool" where
  "contains_constant_regions np_var X sub_sequence_length =
     bind_err (py_max (constant_lengths X)) (\<lambda>constant_length.
       Inr (sub_sequence_length \<le> constant_length \<or> float64_less (np_var X) float_0_2))"

text \<open>The Length Set and the pivot, lines 77 and 78 of the source.\<close>

definition m_set :: "madrid \<Rightarrow> error + int list" where
  "m_set self = np_arange (min_length self) (max_length self + 1) (step_size self)"

definition m_pointer :: "int list \<Rightarrow> error + int" where
  "m_pointer ms = ceil_div (int (length ms)) 2"

text \<open>
  \<^verbatim>\<open>_predict\<close> from \<^verbatim>\<open>X = X.squeeze()\<close> on, the part after the three checks.
  \<^verbatim>\<open>squeeze\<close> turns a one-element array into a scalar, whose \<^verbatim>\<open>len\<close> is a
  \<^verbatim>\<open>TypeError\<close>. The call of the estimator is
  \<^verbatim>\<open>self._estimate_processing_time(self, len_x)\<close>: the receiver and two arguments. The
  division by \<^verbatim>\<open>self.step_size\<close> raises on zero; \<^verbatim>\<open>np.full\<close> raises on a negative
  number of rows. The function ends after \<^verbatim>\<open>m = m_set[m_pointer]\<close>: the two lines that
  would build and return the array of anomalies are commented out, so it returns
  \<^verbatim>\<open>None\<close>.
\<close>

definition predict_search :: "madrid \<Rightarrow> rat list \<Rightarrow> bool \<Rightarrow> error + pyval" where
  "predict_search self X estimate_time =
     (if length X = 1 then Inl TypeError
      else
        let len_x = int (length X) in
        bind_err (if estimate_time
                  then call_estimate_processing_time [Obj self, Obj self, Num len_x]
                  else Inr PyNone) (\<lambda>ignored.
        bind_err (ceil_div (max_length self + 1 - min_length self) (step_size self))
          (\<lambda>num_rows.
        let num_cols = int (length X) in
        if num_rows < 0 then Inl (ValueError NegativeDimensions)
        else
          bind_err (m_set self) (\<lambda>ms.
          bind_err (m_pointer ms) (\<lambda>mp.
          bind_err (np_index ms mp) (\<lambda>m.
          Inr PyNone))))))"

text \<open>\<^verbatim>\<open>_predict(self, X, factor=None, estimate_time=False)\<close>.\<close>

definition predict ::
    "(rat list \<Rightarrow> float64) \<Rightarrow> madrid \<Rightarrow> rat list \<Rightarrow> int option \<Rightarrow> bool \<Rightarrow> error + pyval" where
  "predict np_var self X factor estimate_time =
     (if estimate_time \<and> truthy factor then Inl (ValueError BothEstimateTimeAndFactor)
      else if int (length X) < min_length self
      then Inl (ValueError (SeriesTooShort (int (length X)) (min_length self)))
      else
        bind_err (contains_constant_regions np_var X (min_length self)) (\<lambda>bool_vec.
        if bool_vec then Inl (ValueError ConstantRegion)
        else predict_search self X estimate_time))"

subsection \<open>The words of the specification\<close>

text \<open>
  The definitions named \<open>spec_\<close> follow the words of the specification, not the source;
  the theorems compare them with what the source computes.
\<close>

text \<open>
  The lengths of the maximal runs of unchanged consecutive values of a series, in order,
  and the length of the longest of them (0 for the empty series).
\<close>

fun spec_run_lengths :: "'a list \<Rightarrow> nat list" where
  "spec_run_lengths [] = []"
| "spec_run_lengths [x] = [1]"
| "spec_run_lengths (x # y # zs) =
     (if x = y then Suc (hd (spec_run_lengths (y # zs))) # tl (spec_run_lengths (y # zs))
      else 1 # spec_run_lengths (y # zs))"

definition spec_max_run :: "'a list \<Rightarrow> int" where
  "spec_max_run X = int (fold max (spec_run_lengths X) 0)"

text \<open>
  The count of integers in \<open>[start, stop)\<close> stepped by \<open>step\<close>: those \<open>k\<close> of the
  interval that are a multiple of \<open>step\<close> away from \<open>start\<close>.
\<close>

definition spec_count_stepped :: "int \<Rightarrow> int \<Rightarrow> int \<Rightarrow> int" where
  "spec_count_stepped start stop step =
     int (length (filter (\<lambda>k. (k - start) mod step = 0) [start..stop - 1]))"

text \<open>
  The problem size at a factor: the number of right-region start positions considered at
  that factor, times the number of candidate lengths considered at that factor.
\<close>

definition spec_problem_size :: "madrid \<Rightarrow> int \<Rightarrow> int \<Rightarrow> int" where
  "spec_problem_size self N f =
     spec_count_stepped 1 (N - split_psn self) f *
     spec_count_stepped \<lceil>(of_int (min_length self) / of_int f :: rat)\<rceil>
       \<lceil>(of_int (max_length self) / of_int f :: rat)\<rceil> (step_size self)"

text \<open>
  The change-points of a series: the positions whose value differs from the value just
  before, with the two boundaries of the series as implicit change-points.
\<close>

definition spec_change_points :: "'a list \<Rightarrow> int list" where
  "spec_change_points X =
     [0] @ map int (filter (\<lambda>i. X ! i \<noteq> X ! (i - 1)) [1..<length X]) @ [int (length X)]"

section \<open>The constructor\<close>

text \<open>
  C6. For every \<open>step_size \<le> 0\<close>, whatever the other parameters are, the constructor
  raises the \<^verbatim>\<open>ValueError\<close> about \<^verbatim>\<open>step_size\<close> (the spec's ConfigurationError): no
  detector exists, so no search can begin.
\<close>

theorem init_step_size_not_positive:
  "step \<le> 0 \<Longrightarrow> init min_len max_len step split = Inl (ValueError StepSizeNotPositive)"
  by (simp add: init_def)

theorem init_step_size_not_positive_witness:
  "(0::int) \<le> 0 \<and> init 50 50 0 None = Inl (ValueError StepSizeNotPositive)"
  using init_step_size_not_positive [where step = 0 and min_len = 50 and max_len = 50]
  by simp

text \<open>
  C8. When \<^verbatim>\<open>split_psn\<close> is \<^verbatim>\<open>None\<close>, the detector's \<^verbatim>\<open>split_psn\<close> is
  \<^verbatim>\<open>max_length + 1\<close>; with \<^verbatim>\<open>min_length=50, max_length=50, step_size=1\<close> it is 51.
\<close>

theorem init_split_psn_default:
  "0 < step \<Longrightarrow>
     init min_len max_len step None =
       Inr \<lparr> min_length = min_len, max_length = max_len,
             split_psn = max_len + 1, step_size = step \<rparr>"
  by (simp add: init_def truthy_def)

theorem init_split_psn_default_witness:
  "init 50 50 1 None =
     Inr \<lparr> min_length = 50, max_length = 50, split_psn = 51, step_size = 1 \<rparr>"
  using init_split_psn_default [where step = 1 and min_len = 50 and max_len = 50] by simp

text \<open>
  C10. An explicit falsy \<^verbatim>\<open>split_psn\<close> (zero) is replaced by \<^verbatim>\<open>max_length + 1\<close>, with
  the same detector as when it is unset; a truthy \<^verbatim>\<open>split_psn\<close> is kept as given.
\<close>

theorem init_split_psn_falsy:
  "0 < step \<Longrightarrow>
     init min_len max_len step (Some 0) = init min_len max_len step None \<and>
     map_sum id split_psn (init min_len max_len step (Some 0)) = Inr (max_len + 1) \<and>
     (n \<noteq> 0 \<longrightarrow> map_sum id split_psn (init min_len max_len step (Some n)) = Inr n)"
  by (simp add: init_def truthy_def)

theorem init_split_psn_falsy_witness:
  "init 20 30 1 (Some 0) = init 20 30 1 None \<and>
   map_sum id split_psn (init 20 30 1 (Some 0)) = Inr 31 \<and>
   map_sum id split_psn (init 20 30 1 (Some 7)) = Inr 7"
  using init_split_psn_falsy [where step = 1 and n = 7 and min_len = 20 and max_len = 30]
  by (simp add: init_def truthy_def)

section \<open>Integer division in floats\<close>

lemma round_half_even_of_int [simp]: "round_half_even (of_int m) = m"
  by (simp add: round_half_even_def)

lemma bitlen_powi_bounds:
  assumes "0 < p"
  shows "(2::rat) powi (bitlen p - 1) \<le> of_int p" and "(of_int p :: rat) < 2 powi bitlen p"
proof -
  have b: "1 \<le> bitlen p" using assms by (auto simp: bitlen_alt_def)
  have "2 ^ nat (bitlen p - 1) \<le> p" and "p < 2 ^ nat (bitlen p)"
    using bitlen_bounds [OF assms] by auto
  then have "(of_int (2 ^ nat (bitlen p - 1)) :: rat) \<le> of_int p"
    and "(of_int p :: rat) < of_int (2 ^ nat (bitlen p))"
    by (simp_all only: of_int_le_iff of_int_less_iff)
  then show "(2::rat) powi (bitlen p - 1) \<le> of_int p" and "(of_int p :: rat) < 2 powi bitlen p"
    using b by (simp_all add: power_int_def)
qed

lemma binary_exponent_bounds:
  assumes "0 < p" "0 < q"
  shows "(of_int q :: rat) * 2 powi binary_exponent p q \<le> of_int p"
    and "(of_int p :: rat) < of_int q * 2 powi (binary_exponent p q + 1)"
proof -
  let ?d = "bitlen p - bitlen q"
  have q0: "(0::rat) < of_int q" using assms by simp
  have pl: "(2::rat) powi (bitlen p - 1) \<le> of_int p" and pu: "(of_int p :: rat) < 2 powi bitlen p"
    using bitlen_powi_bounds [OF assms(1)] by auto
  have ql: "(2::rat) powi (bitlen q - 1) \<le> of_int q" and qu: "(of_int q :: rat) < 2 powi bitlen q"
    using bitlen_powi_bounds [OF assms(2)] by auto
  have up: "(of_int p :: rat) < of_int q * 2 powi (?d + 1)"
  proof -
    have "(2::rat) powi bitlen p = 2 powi (bitlen q - 1) * 2 powi (?d + 1)"
      by (simp flip: power_int_add)
    also have "\<dots> \<le> of_int q * 2 powi (?d + 1)"
      using ql by (intro mult_right_mono) simp_all
    finally show ?thesis using pu by simp
  qed
  have lo: "(of_int q :: rat) * 2 powi (?d - 1) \<le> of_int p"
  proof -
    have "(of_int q :: rat) * 2 powi (?d - 1) \<le> 2 powi bitlen q * 2 powi (?d - 1)"
      using qu by (intro mult_right_mono) simp_all
    also have "\<dots> = 2 powi (bitlen p - 1)"
      by (simp flip: power_int_add)
    finally show ?thesis using pl by simp
  qed
  show "(of_int q :: rat) * 2 powi binary_exponent p q \<le> of_int p"
    using lo by (simp add: binary_exponent_def Let_def)
  show "(of_int p :: rat) < of_int q * 2 powi (binary_exponent p q + 1)"
    using up by (auto simp: binary_exponent_def Let_def not_le)
qed

lemma powi_less_iff: "((2::rat) powi m < 2 powi n) = (m < n)"
proof
  assume l: "(2::rat) powi m < 2 powi n"
  show "m < n"
  proof (rule ccontr)
    assume "\<not> m < n"
    then have "(2::rat) powi n \<le> 2 powi m"
      by (intro power_int_increasing) simp_all
    then show False using l by simp
  qed
next
  assume "m < n"
  then show "(2::rat) powi m < 2 powi n"
    by (intro power_int_strict_increasing) simp_all
qed

lemma powi_le_iff: "((2::rat) powi m \<le> 2 powi n) = (m \<le> n)"
  using powi_less_iff [of n m] by (simp add: not_less [symmetric])

lemma int_true_div_pow2:
  assumes a: "\<bar>a\<bar> \<le> 2 ^ 53" and k: "k \<le> 1022"
  shows "int_true_div a (2 ^ k) = Inr (of_int a / 2 ^ k)"
proof (cases "a = 0")
  case True
  then show ?thesis by (simp add: int_true_div_def)
next
  case False
  define e where "e = binary_exponent \<bar>a\<bar> (2 ^ k)"
  have a0: "0 < \<bar>a\<bar>" using False by simp
  have lo: "(2::rat) ^ k * 2 powi e \<le> of_int \<bar>a\<bar>"
    and up: "(of_int \<bar>a\<bar> :: rat) < 2 ^ k * 2 powi (e + 1)"
    using binary_exponent_bounds [OF a0, of "2 ^ k"] by (simp_all add: e_def)
  have a1: "(1::rat) \<le> of_int \<bar>a\<bar>" using a0 by (simp add: int_one_le_iff_zero_less)
  have a53: "(of_int \<bar>a\<bar> :: rat) \<le> 2 powi 53"
  proof -
    have "(of_int \<bar>a\<bar> :: rat) \<le> of_int (2 ^ 53)" using a by (simp only: of_int_le_iff)
    then show ?thesis by simp
  qed
  have "(2::rat) powi 0 < 2 powi (int k + e + 1)"
    using a1 up by (simp add: power_int_add)
  then have e_lo: "0 < int k + e + 1"
    by (simp only: powi_less_iff)
  have "(2::rat) powi (int k + e) \<le> 2 powi 53"
    using lo a53 by (simp add: power_int_add)
  then have e_up: "int k + e \<le> 53"
    by (simp only: powi_le_iff)
  have emax: "max e (- 1022) = e" using e_lo k by simp
  have int: "\<exists>m. (of_int a :: rat) / 2 ^ k / 2 powi (e - 52) = of_int m"
  proof (cases "int k + e \<le> 52")
    case True
    have "(of_int a :: rat) / 2 ^ k / 2 powi (e - 52) = of_int a * 2 powi (52 - e - int k)"
      by (simp add: power_int_diff power_int_add field_simps)
    also have "\<dots> = of_int (a * 2 ^ nat (52 - e - int k))"
      using True by (simp add: power_int_def)
    finally show ?thesis by blast
  next
    case f: False
    then have ek: "e = 53 - int k" using e_up by simp
    have "(2::rat) powi 53 \<le> of_int \<bar>a\<bar>"
      using lo by (simp add: ek power_int_diff)
    then have "(of_int (2 ^ 53) :: rat) \<le> of_int \<bar>a\<bar>" by simp
    then have "2 ^ 53 \<le> \<bar>a\<bar>" by (simp only: of_int_le_iff)
    then have "\<bar>a\<bar> = 2 ^ 53" using a by simp
    then have "a = 2 ^ 53 \<or> a = - (2 ^ 53)" by (simp add: abs_if split: if_splits)
    then have "(of_int a :: rat) / 2 ^ k / 2 powi (e - 52) = of_int (a div 2)"
      by (auto simp: ek power_int_diff)
    then show ?thesis by blast
  qed
  then obtain m where m: "(of_int a :: rat) / of_int (2 ^ k) / 2 powi (e - 52) = of_int m"
    by auto
  have r: "(of_int m :: rat) * 2 powi (e - 52) = of_int a / 2 ^ k"
    unfolding m [symmetric] by simp
  have "\<bar>(of_int a :: rat) / 2 ^ k\<bar> \<le> of_int \<bar>a\<bar>"
    by (simp add: abs_divide divide_le_eq mult_le_cancel_left1)
  also have "\<dots> \<le> 2 powi 53" by (rule a53)
  also have "\<dots> < 2 ^ 1024" by (simp del: power_numeral add: power_strict_increasing)
  finally have "\<not> 2 ^ 1024 \<le> \<bar>(of_int a :: rat) / 2 ^ k\<bar>"
    by (simp only: not_le)
  then have small: "(2 ^ 1024 \<le> \<bar>(of_int a :: rat) / 2 ^ k\<bar>) = False"
    by (simp only: simp_thms)
  have b0: "((2::int) ^ k = 0) = False" and babs: "\<bar>(2::int) ^ k\<bar> = 2 ^ k"
    by simp_all
  have a0': "(a = 0) = False" using False by simp
  show ?thesis
    unfolding int_true_div_def Let_def babs e_def [symmetric] emax m round_half_even_of_int r
    by (simp only: b0 a0' small if_False)
qed

text \<open>
  Up to \<open>2\<^sup>5\<^sup>3\<close> in absolute value, an integer divided by a power of two is a float: the
  division is exact, and so is the ceiling.
\<close>

lemma ceil_div_pow2:
  assumes "\<bar>a\<bar> \<le> 2 ^ 53" and "k \<le> 1022"
  shows "ceil_div a (2 ^ k) = Inr (- (- a div 2 ^ k))"
proof -
  have "\<lceil>(of_int a :: rat) / of_int (2 ^ k)\<rceil> = - (- a div 2 ^ k)"
    by (rule ceiling_divide_eq_div)
  then show ?thesis
    by (simp add: ceil_div_def int_true_div_pow2 [OF assms] bind_err_def)
qed

lemma ceil_div_factor:
  assumes "\<bar>a\<bar> \<le> 2 ^ 53" and "f = 1 \<or> f = 2 \<or> f = 4 \<or> f = 8 \<or> f = 16"
  shows "ceil_div a f = Inr \<lceil>(of_int a / of_int f :: rat)\<rceil>"
proof -
  have c: "\<lceil>(of_int a :: rat) / of_int (2 ^ k)\<rceil> = - (- a div 2 ^ k)" for k
    by (rule ceiling_divide_eq_div)
  from assms(2) consider "f = 2 ^ 0" | "f = 2 ^ 1" | "f = 2 ^ 2" | "f = 2 ^ 3" | "f = 2 ^ 4"
    by auto
  then show ?thesis
  proof cases
    case 1 then show ?thesis using ceil_div_pow2 [OF assms(1), of 0] c [of 0] by simp
  next
    case 2 then show ?thesis using ceil_div_pow2 [OF assms(1), of 1] c [of 1] by simp
  next
    case 3 then show ?thesis using ceil_div_pow2 [OF assms(1), of 2] c [of 2] by simp
  next
    case 4 then show ?thesis using ceil_div_pow2 [OF assms(1), of 3] c [of 3] by simp
  next
    case 5 then show ?thesis using ceil_div_pow2 [OF assms(1), of 4] c [of 4] by simp
  qed
qed

lemma ceil_div_1: "\<bar>a\<bar> \<le> 2 ^ 53 \<Longrightarrow> ceil_div a 1 = Inr a"
  using ceil_div_pow2 [of a 0] by simp

lemma ceil_div_2: "\<bar>a\<bar> \<le> 2 ^ 53 \<Longrightarrow> ceil_div a 2 = Inr (- (- a div 2))"
  using ceil_div_pow2 [of a 1] by simp

lemma int_true_div_errors:
  "int_true_div a b = Inl e \<Longrightarrow> e = ZeroDivisionError \<or> e = OverflowError"
  by (auto simp: int_true_div_def Let_def split: if_splits)

lemma ceil_div_errors:
  "ceil_div a b = Inl e \<Longrightarrow> e = ZeroDivisionError \<or> e = OverflowError"
  using int_true_div_errors [of a b e]
  by (auto simp: ceil_div_def bind_err_def split: sum.splits)

section \<open>The input guard\<close>

subsection \<open>Run lengths\<close>

lemma np_diff_simps [simp]:
  "np_diff [] = []"
  "np_diff [x] = []"
  "np_diff (x # y # zs) = (y - x) # np_diff (y # zs)"
  by (simp_all add: np_diff_def)

lemma np_where_Nil [simp]: "np_where [] = []"
  by (simp add: np_where_def)

lemma np_where_Cons:
  "np_where (b # bs) = (if b then [0] else []) @ map (\<lambda>i. i + 1) (np_where bs)"
proof -
  have "[0..<Suc (length bs)] = 0 # map Suc [0..<length bs]"
    by (simp add: upt_conv_Cons map_Suc_upt del: upt_Suc)
  then show ?thesis
    by (simp add: np_where_def filter_map comp_def del: upt_Suc)
qed

lemma np_diff_map_add: "np_diff (map (\<lambda>i. i + c) (xs::int list)) = np_diff xs"
  by (induction xs rule: induct_list012) simp_all

lemma constant_indices_Cons2:
  "constant_indices (x # y # zs) =
     0 # (if y \<noteq> x then [1] else []) @ map (\<lambda>i. i + 1) (tl (constant_indices (y # zs)))"
  by (simp add: constant_indices_def np_where_Cons)

lemma constant_indices_shape: "\<exists>t. constant_indices X = 0 # t \<and> t \<noteq> []"
  by (simp add: constant_indices_def)

text \<open>
  The differences of the change-points follow the recursion of \<open>spec_run_lengths\<close>: a value
  equal to the next one makes the first run one longer, a different value starts a run.
\<close>

lemma constant_lengths_Cons2:
  "constant_lengths (x # y # zs) =
     (if x = y then (hd (constant_lengths (y # zs)) + 1) # tl (constant_lengths (y # zs))
      else 1 # constant_lengths (y # zs))"
proof -
  obtain a r where t: "constant_indices (y # zs) = 0 # a # r"
    using constant_indices_shape [of "y # zs"] by (metis list.exhaust)
  have "np_diff (map (\<lambda>i. i + 1) (a # r)) = np_diff (a # r)"
    by (rule np_diff_map_add)
  then show ?thesis
    by (simp add: constant_lengths_def constant_indices_Cons2 t)
qed

lemma run_lengths_not_Nil: "X \<noteq> [] \<Longrightarrow> spec_run_lengths X \<noteq> []"
  by (induction X rule: spec_run_lengths.induct) simp_all

lemma constant_lengths_run_lengths:
  "X \<noteq> [] \<Longrightarrow> constant_lengths X = map int (spec_run_lengths X)"
proof (induction X rule: spec_run_lengths.induct)
  case 1
  then show ?case by simp
next
  case (2 x)
  show ?case by (simp add: constant_lengths_def constant_indices_def)
next
  case (3 x y zs)
  then have ih: "constant_lengths (y # zs) = map int (spec_run_lengths (y # zs))"
    by (cases "x = y") simp_all
  have ne: "spec_run_lengths (y # zs) \<noteq> []"
    by (rule run_lengths_not_Nil) simp
  show ?case
    using ne by (simp add: constant_lengths_Cons2 ih hd_map map_tl)
qed

lemma fold_max_int: "int (fold max xs (a::nat)) = fold max (map int xs) (int a)"
  by (induction xs arbitrary: a) (simp_all add: max_def)

lemma py_max_constant_lengths: "py_max (constant_lengths X) = Inr (spec_max_run X)"
proof (cases X)
  case Nil
  then show ?thesis
    by (simp add: py_max_def constant_lengths_def constant_indices_def spec_max_run_def)
next
  case (Cons x xs)
  then have ne: "X \<noteq> []" by simp
  then obtain a rs where e: "spec_run_lengths X = a # rs"
    using run_lengths_not_Nil [OF ne] by (cases "spec_run_lengths X") auto
  show ?thesis
    by (simp add: constant_lengths_run_lengths [OF ne] e py_max_def spec_max_run_def fold_max_int)
qed

text \<open>
  What \<open>spec_max_run\<close> means: the series has a run of at least \<open>L\<close> unchanged consecutive
  values exactly when it has a window of \<open>L\<close> positions that all hold one value.
\<close>

lemma le_fold_max: "(L \<le> fold max xs (a::nat)) = (L \<le> a \<or> (\<exists>r\<in>set xs. L \<le> r))"
  by (induction xs arbitrary: a) (auto simp: max_def)

lemma nth_single: "j < L \<Longrightarrow> L \<le> Suc 0 \<Longrightarrow> (x # xs) ! j = x"
  by (cases j) simp_all

lemma ex_nat_split: "(\<exists>i::nat. P i) = (P 0 \<or> (\<exists>i. P (Suc i)))"
  by (metis not0_implies_Suc)

lemma hd_run_lengths_window:
  "X \<noteq> [] \<Longrightarrow>
     (L \<le> hd (spec_run_lengths X)) = (L \<le> length X \<and> (\<forall>j<L. X ! j = X ! 0))"
proof (induction X arbitrary: L rule: spec_run_lengths.induct)
  case 1
  then show ?case by simp
next
  case (2 x)
  show ?case by (auto simp: nth_single)
next
  case (3 x y zs)
  show ?case
  proof (cases "x = y")
    case True
    have ih: "(K \<le> hd (spec_run_lengths (y # zs))) =
                (K \<le> length (y # zs) \<and> (\<forall>j<K. (y # zs) ! j = (y # zs) ! 0))" for K
      using "3.IH"(1) [OF True] by simp
    show ?thesis
    proof (cases L)
      case 0
      then show ?thesis by simp
    next
      case (Suc K)
      show ?thesis
        using True ih [of K] unfolding Suc
        by (auto simp: less_Suc_eq_0_disj)
    qed
  next
    case False
    show ?thesis
    proof (cases "L \<le> 1")
      case True
      then show ?thesis using False by (auto simp: nth_single)
    next
      case f: False
      then have "1 < L" by simp
      then have "\<not> (\<forall>j<L. (x # y # zs) ! j = (x # y # zs) ! 0)"
        using False by (auto intro!: exI [of _ 1])
      then show ?thesis using False f by simp
    qed
  qed
qed

lemma run_lengths_window:
  "0 < L \<Longrightarrow>
     (\<exists>r\<in>set (spec_run_lengths X). L \<le> r) =
       (\<exists>i. i + L \<le> length X \<and> (\<forall>j<L. X ! (i + j) = X ! i))"
proof (induction X rule: spec_run_lengths.induct)
  case 1
  then show ?case by simp
next
  case (2 x)
  have "L \<le> Suc 0 \<Longrightarrow> 0 + L \<le> length [x] \<and> (\<forall>j<L. [x] ! (0 + j) = [x] ! 0)"
    by (auto simp: nth_single)
  then have "L \<le> Suc 0 \<Longrightarrow> \<exists>i. i + L \<le> length [x] \<and> (\<forall>j<L. [x] ! (i + j) = [x] ! i)"
    by blast
  then show ?case by auto
next
  case (3 x y zs)
  let ?X = "x # y # zs" and ?X' = "y # zs"
  let ?W = "\<lambda>X i. i + L \<le> length X \<and> (\<forall>j<L. X ! (i + j) = X ! i)"
  have ih: "(\<exists>r\<in>set (spec_run_lengths ?X'). L \<le> r) = (\<exists>i. ?W ?X' i)"
    using 3 by (cases "x = y") simp_all
  have ne: "spec_run_lengths ?X' \<noteq> []"
    by (rule run_lengths_not_Nil) simp
  then obtain h t where ht: "spec_run_lengths ?X' = h # t"
    by (cases "spec_run_lengths ?X'") auto
  have w0: "?W ?X 0 = (L \<le> hd (spec_run_lengths ?X))"
    using hd_run_lengths_window [of ?X L] by simp
  have ws: "?W ?X (Suc i) = ?W ?X' i" for i
    by simp
  have "(\<exists>i. ?W ?X i) = (?W ?X 0 \<or> (\<exists>i. ?W ?X (Suc i)))"
    by (rule ex_nat_split)
  also have "\<dots> = (L \<le> hd (spec_run_lengths ?X) \<or> (\<exists>r\<in>set (spec_run_lengths ?X'). L \<le> r))"
    unfolding w0 ws ih ..
  also have "\<dots> = (\<exists>r\<in>set (spec_run_lengths ?X). L \<le> r)"
    using ht by (cases "x = y") auto
  finally show ?case ..
qed

lemma max_run_window:
  "0 < L \<Longrightarrow>
     (int L \<le> spec_max_run X) = (\<exists>i. i + L \<le> length X \<and> (\<forall>j<L. X ! (i + j) = X ! i))"
  unfolding spec_max_run_def using run_lengths_window [of L X] by (simp add: le_fold_max)

lemma contains_constant_regions_eq:
  "contains_constant_regions np_var X L =
     Inr (L \<le> spec_max_run X \<or> float64_less (np_var X) float_0_2)"
  by (simp add: contains_constant_regions_def py_max_constant_lengths bind_err_def)

subsection \<open>The change-points\<close>

lemma length_np_diff: "length (np_diff a) = length a - 1"
  by (simp add: np_diff_def)

lemma np_diff_nth: "Suc i < length a \<Longrightarrow> np_diff a ! i = a ! Suc i - a ! i"
  by (simp add: np_diff_def nth_tl)

lemma constant_indices_change_points: "constant_indices X = spec_change_points X"
proof -
  let ?n = "length X"
  let ?P = "\<lambda>i. X ! i \<noteq> X ! (i - 1)"
  have "filter (\<lambda>i. map (\<lambda>d. d \<noteq> 0) (np_diff X) ! i) [0..<?n - 1]
          = filter (?P \<circ> Suc) [0..<?n - 1]"
    by (rule filter_cong) (auto simp: length_np_diff np_diff_nth)
  then have "map Suc (filter (\<lambda>i. map (\<lambda>d. d \<noteq> 0) (np_diff X) ! i) [0..<?n - 1])
          = filter ?P (map Suc [0..<?n - 1])"
    by (simp add: filter_map)
  also have "map Suc [0..<?n - 1] = [1..<?n]"
    by (cases X) (simp_all add: map_Suc_upt del: upt_Suc)
  finally have e: "map Suc (filter (\<lambda>i. map (\<lambda>d. d \<noteq> 0) (np_diff X) ! i) [0..<?n - 1])
          = filter ?P [1..<?n]" .
  have "map (\<lambda>i. i + 1) (np_where (map (\<lambda>d. d \<noteq> 0) (np_diff X)))
          = map int (map Suc (filter (\<lambda>i. map (\<lambda>d. d \<noteq> 0) (np_diff X) ! i) [0..<?n - 1]))"
    by (simp add: np_where_def length_np_diff comp_def)
  then have "map (\<lambda>i. i + 1) (np_where (map (\<lambda>d. d \<noteq> 0) (np_diff X)))
          = map int (filter ?P [1..<?n])"
    unfolding e .
  then show ?thesis
    by (simp add: constant_indices_def spec_change_points_def)
qed

lemma constant_lengths_eq:
  "constant_lengths X = (if X = [] then [0] else map int (spec_run_lengths X))"
  by (simp add: constant_lengths_run_lengths) (simp add: constant_lengths_def constant_indices_def)

subsection \<open>What the part after the checks can raise\<close>

lemma predict_search_errors:
  "predict_search self X estimate_time = Inl e \<Longrightarrow>
     e = TypeError \<or> e = ZeroDivisionError \<or> e = OverflowError \<or>
     e = ValueError NegativeDimensions \<or> e = IndexError"
  by (auto simp: predict_search_def bind_err_def np_index_def m_set_def m_pointer_def
      np_arange_def Let_def
      split: if_splits sum.splits dest: ceil_div_errors)

lemma predict_search_not_constant_region:
  "predict_search self X estimate_time \<noteq> Inl (ValueError ConstantRegion)"
  using predict_search_errors [of self X estimate_time "ValueError ConstantRegion"] by auto

lemma predict_constant_region_iff:
  "\<not> (estimate_time \<and> truthy factor) \<Longrightarrow> min_length self \<le> int (length X) \<Longrightarrow>
     (predict np_var self X factor estimate_time = Inl (ValueError ConstantRegion)) =
       (min_length self \<le> spec_max_run X \<or> float64_less (np_var X) float_0_2)"
  by (auto simp: predict_def contains_constant_regions_eq bind_err_def
      predict_search_not_constant_region)

subsection \<open>The series is too short\<close>

text \<open>
  C7, as stated, fails: the check that \<^verbatim>\<open>estimate_time\<close> and \<^verbatim>\<open>factor\<close> are not both
  set comes first in \<^verbatim>\<open>_predict\<close>. With both set, a series shorter than
  \<^verbatim>\<open>min_length\<close> gets the \<^verbatim>\<open>ValueError\<close> about the two parameters, not the one about
  its length. (\<^verbatim>\<open>np.var\<close> is not reached; on this series it would return 0.)
\<close>

theorem predict_too_short_counterexample:
  "int (length [1::rat]) <
     min_length \<lparr>min_length = 5, max_length = 8, split_psn = 9, step_size = 1\<rparr> \<and>
   predict (\<lambda>X. Finite 0) \<lparr>min_length = 5, max_length = 8, split_psn = 9, step_size = 1\<rparr>
     [1] (Some 2) True = Inl (ValueError BothEstimateTimeAndFactor)"
  by (simp add: predict_def truthy_def)

text \<open>
  C7, amended. When \<^verbatim>\<open>estimate_time\<close> and \<^verbatim>\<open>factor\<close> are not both set, every series
  with \<open>len(X) < min_length\<close> makes \<^verbatim>\<open>_predict\<close> raise the \<^verbatim>\<open>ValueError\<close> about the
  length of the series (the spec's DataTooShortError). The result is the error: the part
  of \<^verbatim>\<open>_predict\<close> after the checks is not reached and no table is built.
\<close>

theorem predict_too_short:
  "\<not> (estimate_time \<and> truthy factor) \<Longrightarrow> int (length X) < min_length self \<Longrightarrow>
     predict np_var self X factor estimate_time =
       Inl (ValueError (SeriesTooShort (int (length X)) (min_length self)))"
  by (simp add: predict_def)

theorem predict_too_short_witness:
  "predict (\<lambda>X. Finite (1 / 4)) \<lparr>min_length = 3, max_length = 8, split_psn = 9, step_size = 1\<rparr>
     [0, 1] None False = Inl (ValueError (SeriesTooShort 2 3))"
  using predict_too_short
    [where self = "\<lparr>min_length = 3, max_length = 8, split_psn = 9, step_size = 1\<rparr>"
      and X = "[0, 1]" and factor = None and estimate_time = False
      and np_var = "\<lambda>X. Finite (1 / 4)"]
  by simp

subsection \<open>The series has a constant region\<close>

text \<open>
  C4, as stated, fails for the same reason as C7: with \<^verbatim>\<open>estimate_time\<close> and
  \<^verbatim>\<open>factor\<close> both set, a series that is long enough and constant throughout gets the
  \<^verbatim>\<open>ValueError\<close> about the two parameters, not the one about constant regions.
  (\<^verbatim>\<open>np.var\<close> is not reached; on this series it would return 0.)
\<close>

theorem predict_constant_region_counterexample:
  "min_length \<lparr>min_length = 2, max_length = 3, split_psn = 4, step_size = 1\<rparr>
     \<le> int (length [1::rat, 1, 1]) \<and>
   min_length \<lparr>min_length = 2, max_length = 3, split_psn = 4, step_size = 1\<rparr>
     \<le> spec_max_run [1::rat, 1, 1] \<and>
   predict (\<lambda>X. Finite 0) \<lparr>min_length = 2, max_length = 3, split_psn = 4, step_size = 1\<rparr>
     [1, 1, 1] (Some 2) True = Inl (ValueError BothEstimateTimeAndFactor)"
  by (simp add: predict_def truthy_def spec_max_run_def)

text \<open>
  C4, amended. When \<^verbatim>\<open>estimate_time\<close> and \<^verbatim>\<open>factor\<close> are not both set, for every
  series of finite values with \<open>len(X) \<ge> min_length\<close> the call \<^verbatim>\<open>_predict\<close> raises the
  \<^verbatim>\<open>ValueError\<close> about constant regions (the spec's DegenerateRegionError) exactly when
  the longest run of unchanged consecutive values is at least \<^verbatim>\<open>min_length\<close> long or
  the variance that \<^verbatim>\<open>np.var\<close> computes for the series, a float, is below 0.2. The
  flat-region test computes the change-points of the series with its two boundaries, takes
  the run lengths between them, and compares their maximum with \<^verbatim>\<open>min_length\<close>. The
  longest run is at least \<open>L\<close> exactly when \<open>L\<close> consecutive positions somewhere in the
  series hold one value.
\<close>

theorem predict_constant_region:
  "\<not> (estimate_time \<and> truthy factor) \<Longrightarrow> min_length self \<le> int (length X) \<Longrightarrow>
     (predict np_var self X factor estimate_time = Inl (ValueError ConstantRegion)) =
       (min_length self \<le> spec_max_run X \<or> float64_less (np_var X) float_0_2) \<and>
     contains_constant_regions np_var X (min_length self) =
       Inr (min_length self \<le> spec_max_run X \<or> float64_less (np_var X) float_0_2) \<and>
     constant_indices X = spec_change_points X \<and>
     constant_lengths X = (if X = [] then [0] else map int (spec_run_lengths X)) \<and>
     py_max (constant_lengths X) = Inr (spec_max_run X) \<and>
     (0 < L \<longrightarrow>
        (int L \<le> spec_max_run X) =
          (\<exists>i. i + L \<le> length X \<and> (\<forall>j<L. X ! (i + j) = X ! i)))"
  using predict_constant_region_iff [of estimate_time factor self X np_var]
    contains_constant_regions_eq [of np_var X "min_length self"]
    constant_indices_change_points [of X] constant_lengths_eq [of X]
    py_max_constant_lengths [of X] max_run_window [of L X]
  by blast

theorem predict_constant_region_witness:
  "predict (\<lambda>X. Finite (3 / 4)) \<lparr>min_length = 3, max_length = 4, split_psn = 5, step_size = 1\<rparr>
     [0, 2, 2, 2] None False = Inl (ValueError ConstantRegion) \<and>
   predict (\<lambda>X. Finite (1 / 64)) \<lparr>min_length = 3, max_length = 4, split_psn = 5, step_size = 1\<rparr>
     [1, 5 / 4, 1, 5 / 4] None False = Inl (ValueError ConstantRegion) \<and>
   spec_max_run [0::rat, 2, 2, 2] = 3 \<and>
   spec_max_run [1::rat, 5 / 4, 1, 5 / 4] = 1 \<and>
   constant_indices [0, 2, 2, 2] = [0, 1, 4] \<and>
   constant_lengths [0, 2, 2, 2] = [1, 3]"
  using predict_constant_region
    [where self = "\<lparr>min_length = 3, max_length = 4, split_psn = 5, step_size = 1\<rparr>"
      and X = "[0, 2, 2, 2]" and factor = None and estimate_time = False and L = 3
      and np_var = "\<lambda>X. Finite (3 / 4)"]
    predict_constant_region
    [where self = "\<lparr>min_length = 3, max_length = 4, split_psn = 5, step_size = 1\<rparr>"
      and X = "[1, 5 / 4, 1, 5 / 4]" and factor = None and estimate_time = False and L = 3
      and np_var = "\<lambda>X. Finite (1 / 64)"]
  by (simp add: spec_max_run_def float64_less_def float_0_2_def spec_change_points_def)

section \<open>The detection entry point\<close>

lemmas eval_defs =
  predict_def truthy_def contains_constant_regions_eq spec_max_run_def bind_err_def
  predict_search_def m_set_def m_pointer_def np_arange_def np_index_def ceil_div_1 ceil_div_2

lemma floor_rat_numeral:
  "\<lfloor>(numeral a / numeral b :: rat)\<rfloor> = numeral a div numeral b"
  "\<lfloor>(1 / numeral b :: rat)\<rfloor> = 1 div numeral b"
  "\<lfloor>(- (numeral a / numeral b) :: rat)\<rfloor> = - numeral a div numeral b"
  using floor_divide_of_int_eq [of "numeral a" "numeral b", where ?'a = rat]
    floor_divide_of_int_eq [of 1 "numeral b", where ?'a = rat]
    floor_divide_of_int_eq [of "- numeral a" "numeral b", where ?'a = rat]
  by simp_all

lemma ceiling_rat_numeral:
  "\<lceil>(numeral a / numeral b :: rat)\<rceil> = - (- numeral a div numeral b)"
  "\<lceil>(1 / numeral b :: rat)\<rceil> = - (- 1 div numeral b)"
  "\<lceil>(- (numeral a / numeral b) :: rat)\<rceil> = - (numeral a div numeral b)"
  using ceiling_divide_eq_div [of "numeral a" "numeral b", where ?'a = rat]
    ceiling_divide_eq_div [of 1 "numeral b", where ?'a = rat]
    ceiling_divide_eq_div [of "- numeral a" "numeral b", where ?'a = rat]
  by simp_all

lemmas float_eval_defs =
  ceil_div_def int_true_div_def binary_exponent_def round_half_even_def compute_bitlen Let_def
  floor_rat_numeral ceiling_rat_numeral

lemma predict_never_array: "predict np_var self X factor estimate_time \<noteq> Inr (NdArray a)"
  by (auto simp: predict_def predict_search_def bind_err_def Let_def split: sum.splits if_splits)

text \<open>
  C1 does not hold of the code. \<^verbatim>\<open>_predict\<close> is annotated \<^verbatim>\<open>-> np.ndarray\<close>, but the
  two lines that build and return the array are commented out: on a series and a
  configuration that pass every check, it returns \<^verbatim>\<open>None\<close>. The series is
  \<open>[0, 1, 0, 1]\<close>, whose variance \<^verbatim>\<open>np.var\<close> computes as 0.25, not below 0.2. (By
  \<open>predict_never_array\<close> no input at all makes it return an array.)
\<close>

theorem predict_returns_none:
  "\<not> float64_less (np_var [0, 1, 0, 1]) float_0_2 \<Longrightarrow>
     predict np_var \<lparr>min_length = 2, max_length = 3, split_psn = 4, step_size = 1\<rparr>
       [0, 1, 0, 1] None False = Inr PyNone"
  by (simp add: eval_defs)

theorem predict_returns_none_witness:
  "\<not> float64_less (Finite (1 / 4)) float_0_2 \<and>
   predict (\<lambda>X. Finite (1 / 4)) \<lparr>min_length = 2, max_length = 3, split_psn = 4, step_size = 1\<rparr>
     [0, 1, 0, 1] None False = Inr PyNone"
  using predict_returns_none [where np_var = "\<lambda>X. Finite (1 / 4)"]
  by (simp add: float64_less_def float_0_2_def)

lemma m_pointer_valid_iff:
  assumes "int (length ms) \<le> 2 ^ 53"
  shows "\<exists>p. m_pointer ms = Inr p \<and> (p < int (length ms)) = (2 \<le> length ms)"
proof -
  have "m_pointer ms = Inr (- (- int (length ms) div 2))"
    unfolding m_pointer_def using assms by (intro ceil_div_2) simp
  moreover have "(- (- int (length ms) div 2) < int (length ms)) = (2 \<le> length ms)"
    by auto
  ultimately show ?thesis by blast
qed

text \<open>
  C2 does not hold of the code. The pivot \<open>\<lceil>len(m_set) / 2\<rceil>\<close> is a position counted
  from one, used as an index counted from zero: with a single length, \<^verbatim>\<open>m_set\<close> has
  one element and \<^verbatim>\<open>m_pointer\<close> is 1, so \<^verbatim>\<open>m_set[m_pointer]\<close> raises
  \<^verbatim>\<open>IndexError\<close>. (By \<open>m_pointer_valid_iff\<close> the index is valid exactly when the
  Length Set has two lengths or more.) With the three lengths 30, 40, 50 the pivot selects
  the last one, not the middle one.
\<close>

theorem predict_single_length_index_error:
  "m_set \<lparr>min_length = 20, max_length = 20, split_psn = 21, step_size = 1\<rparr> = Inr [20] \<and>
   m_pointer [20] = Inr 1 \<and>
   np_index [20 :: int] 1 = Inl IndexError \<and>
   m_set \<lparr>min_length = 30, max_length = 50, split_psn = 51, step_size = 10\<rparr>
     = Inr [30, 40, 50] \<and>
   m_pointer [30, 40, 50] = Inr 2 \<and>
   np_index [30 :: int, 40, 50] 2 = Inr 50 \<and>
   m_set \<lparr>min_length = 2, max_length = 2, split_psn = 3, step_size = 1\<rparr> = Inr [2] \<and>
   m_pointer [2] = Inr 1 \<and>
   (\<not> float64_less (np_var [0, 1, 0, 1]) float_0_2 \<longrightarrow>
      predict np_var \<lparr>min_length = 2, max_length = 2, split_psn = 3, step_size = 1\<rparr>
        [0, 1, 0, 1] None False = Inl IndexError)"
  by (simp add: eval_defs float_eval_defs eval_nat_numeral)

theorem predict_single_length_index_error_witness:
  "predict (\<lambda>X. Finite (1 / 4)) \<lparr>min_length = 2, max_length = 2, split_psn = 3, step_size = 1\<rparr>
     [0, 1, 0, 1] None False = Inl IndexError"
  using predict_single_length_index_error [where np_var = "\<lambda>X. Finite (1 / 4)"]
  by (simp add: float64_less_def float_0_2_def)

lemma predict_estimate_time_never_returns: "predict np_var self X factor True \<noteq> Inr v"
  by (auto simp: predict_def predict_search_def bind_err_def Let_def split: sum.splits if_splits)

text \<open>
  C3 does not hold of the code. \<^verbatim>\<open>_predict\<close> calls the estimator as
  \<^verbatim>\<open>self._estimate_processing_time(self, len_x)\<close>, three arguments for the two
  parameters \<^verbatim>\<open>(self, len_x)\<close>: with \<^verbatim>\<open>estimate_time\<close> true and \<^verbatim>\<open>factor\<close> unset,
  a series that passes every check gets a \<^verbatim>\<open>TypeError\<close>. (By
  \<open>predict_estimate_time_never_returns\<close> no call with \<^verbatim>\<open>estimate_time\<close> true returns.)
  Called with the right arguments, the estimator computes its predictions and returns
  \<^verbatim>\<open>None\<close>: it has no \<^verbatim>\<open>return\<close> statement.
\<close>

theorem predict_estimate_time_type_error:
  "(\<not> float64_less (np_var [0, 1, 0, 1]) float_0_2 \<longrightarrow>
      predict np_var \<lparr>min_length = 2, max_length = 3, split_psn = 4, step_size = 1\<rparr>
        [0, 1, 0, 1] None True = Inl TypeError) \<and>
   estimate_processing_time \<lparr>min_length = 2, max_length = 3, split_psn = 4, step_size = 1\<rparr> 4
     = Inr PyNone"
  by (simp add: eval_defs float_eval_defs estimate_processing_time_def estimate_locals_def
      problem_size_def len_range_def range_length_def)

theorem predict_estimate_time_type_error_witness:
  "predict (\<lambda>X. Finite (1 / 4)) \<lparr>min_length = 2, max_length = 3, split_psn = 4, step_size = 1\<rparr>
     [0, 1, 0, 1] None True = Inl TypeError"
  using predict_estimate_time_type_error [where np_var = "\<lambda>X. Finite (1 / 4)"]
  by (simp add: float64_less_def float_0_2_def)

section \<open>The runtime estimator\<close>

subsection \<open>The length of a range is the count of its integers\<close>

lemma div_step:
  fixes n s :: int
  assumes "0 < s"
  shows "n div s = (n - 1) div s + (if n mod s = 0 then 1 else 0)"
proof -
  define q where "q = (n - 1) div s"
  define r where "r = (n - 1) mod s"
  have "n - 1 = s * q + r"
    unfolding q_def r_def by simp
  then have n: "n = s * q + (r + 1)"
    by linarith
  have r0: "0 \<le> r" and rs: "r < s"
    unfolding r_def using assms by simp_all
  show ?thesis
  proof (cases "r + 1 = s")
    case True
    have "n = s * (q + 1)"
      unfolding n True [symmetric] by (simp add: algebra_simps)
    then have "n div s = q + 1" and "n mod s = 0"
      using assms by simp_all
    then show ?thesis
      unfolding q_def by simp
  next
    case False
    then have lt: "r + 1 < s" using rs by linarith
    have r1: "0 \<le> r + 1" using r0 by linarith
    have d: "n div s = q"
      by (rule int_div_pos_eq [OF n r1 lt])
    have m: "n mod s = r + 1"
      by (rule int_mod_pos_eq [OF n r1 lt])
    have "n mod s \<noteq> 0" unfolding m using r0 by linarith
    then show ?thesis
      unfolding d q_def by simp
  qed
qed

lemma count_upto_nat:
  fixes a s :: int
  assumes "0 < s"
  shows "int (length (filter (\<lambda>k. (k - a) mod s = 0) [a..a + int n - 1])) =
           (if n = 0 then 0 else (int n - 1) div s + 1)"
proof (induction n)
  case 0
  then show ?case by simp
next
  case (Suc n)
  have split: "[a..a + int n] = [a..a + int n - 1] @ [a + int n]"
    by (rule upto_rec2) simp
  show ?case
  proof (cases "n = 0")
    case True
    then show ?thesis using assms by simp
  next
    case False
    then show ?thesis
      using Suc div_step [OF assms, of "int n"] by (simp add: split)
  qed
qed

lemma range_length_count_stepped:
  assumes "0 < step"
  shows "range_length start stop step = spec_count_stepped start stop step"
proof (cases "start < stop")
  case True
  define n where "n = nat (stop - start)"
  have stop: "stop = start + int n" and n: "n \<noteq> 0"
    using True by (simp_all add: n_def)
  show ?thesis
    unfolding stop range_length_def spec_count_stepped_def
    using assms n count_upto_nat [OF assms, of start n] by simp
next
  case False
  then show ?thesis using assms by (simp add: range_length_def spec_count_stepped_def)
qed

lemma count_stepped_eq:
  "0 < step \<Longrightarrow>
     spec_count_stepped start stop step =
       (if start < stop then (stop - start - 1) div step + 1 else 0)"
  using range_length_count_stepped [of step start stop] by (simp add: range_length_def)

lemma range_length_nonneg: "0 < step \<Longrightarrow> 0 \<le> range_length start stop step"
  by (simp add: range_length_def pos_imp_zdiv_nonneg_iff)

lemma range_length_le_width:
  assumes "0 < step"
  shows "range_length start stop step \<le> max 0 (stop - start)"
proof (cases "start < stop")
  case True
  have "(stop - start - 1) div step \<le> (stop - start - 1) div 1"
    using assms True by (intro zdiv_mono2) simp_all
  then show ?thesis using assms True by (simp add: range_length_def)
next
  case False
  then show ?thesis using assms by (simp add: range_length_def)
qed

lemma len_range_in_reach:
  assumes "0 < step" and "stop - start \<le> 2 ^ 63 - 1"
  shows "len_range start stop step = Inr (spec_count_stepped start stop step)"
proof -
  have "range_length start stop step \<le> 2 ^ 63 - 1"
    using range_length_le_width [OF assms(1), of start stop] assms(2) by simp
  then show ?thesis
    using assms(1) by (simp add: len_range_def range_length_count_stepped)
qed

subsection \<open>The problem size within the reach of floats and of \<^verbatim>\<open>len\<close>\<close>

lemma ceiling_div_bounds:
  assumes "\<bar>a\<bar> \<le> 2 ^ 53" and "1 \<le> f"
  shows "- (2 ^ 53) \<le> \<lceil>(of_int a / of_int f :: rat)\<rceil>"
    and "\<lceil>(of_int a / of_int f :: rat)\<rceil> \<le> 2 ^ 53"
proof -
  have f: "(1::rat) \<le> of_int f" using assms(2) by simp
  have "\<bar>(of_int a / of_int f :: rat)\<bar> \<le> \<bar>of_int a\<bar>"
    using f by (simp add: abs_divide divide_le_eq mult_le_cancel_left1)
  also have "\<dots> \<le> of_int (2 ^ 53)"
    using assms(1) by (simp only: of_int_abs [symmetric] of_int_le_iff)
  finally have b: "\<bar>(of_int a / of_int f :: rat)\<bar> \<le> of_int (2 ^ 53)" .
  have "\<lceil>(of_int a / of_int f :: rat)\<rceil> \<le> \<lceil>(of_int (2 ^ 53) :: rat)\<rceil>"
    using b by (intro ceiling_mono) linarith
  then show "\<lceil>(of_int a / of_int f :: rat)\<rceil> \<le> 2 ^ 53"
    by (simp only: ceiling_of_int)
  have "- (of_int (2 ^ 53) :: rat) \<le> of_int a / of_int f"
    using b by linarith
  then have "(of_int (- (2 ^ 53)) :: rat) \<le> of_int a / of_int f"
    by (simp only: of_int_minus)
  then have "\<lceil>(of_int (- (2 ^ 53)) :: rat)\<rceil> \<le> \<lceil>(of_int a / of_int f :: rat)\<rceil>"
    by (rule ceiling_mono)
  then show "- (2 ^ 53) \<le> \<lceil>(of_int a / of_int f :: rat)\<rceil>"
    by (simp only: ceiling_of_int)
qed

lemma problem_size_in_reach:
  assumes step: "0 < step_size self"
    and mn: "\<bar>min_length self\<bar> \<le> 2 ^ 53" and mx: "\<bar>max_length self\<bar> \<le> 2 ^ 53"
    and N: "N - split_psn self \<le> 2 ^ 63"
    and f: "f = 1 \<or> f = 2 \<or> f = 4 \<or> f = 8 \<or> f = 16"
  shows "problem_size self N f = Inr (spec_problem_size self N f)"
proof -
  have f1: "0 < f" "1 \<le> f" using f by auto
  have p: "len_range 1 (N - split_psn self) f
             = Inr (spec_count_stepped 1 (N - split_psn self) f)"
    using N by (intro len_range_in_reach f1) simp
  let ?lo = "\<lceil>(of_int (min_length self) / of_int f :: rat)\<rceil>"
  let ?hi = "\<lceil>(of_int (max_length self) / of_int f :: rat)\<rceil>"
  have hi: "?hi \<le> 2 ^ 53" by (rule ceiling_div_bounds(2) [OF mx f1(2)])
  have lo: "- (2 ^ 53) \<le> ?lo" by (rule ceiling_div_bounds(1) [OF mn f1(2)])
  have "(2::int) ^ 53 + 2 ^ 53 \<le> 2 ^ 63 - 1" by simp
  with hi lo have "?hi - ?lo \<le> 2 ^ 63 - 1" by linarith
  then have l: "len_range ?lo ?hi (step_size self)
             = Inr (spec_count_stepped ?lo ?hi (step_size self))"
    by (intro len_range_in_reach step)
  show ?thesis
    by (simp add: problem_size_def spec_problem_size_def bind_err_def p l
        ceil_div_factor [OF mn f] ceil_div_factor [OF mx f])
qed

lemma estimate_locals_in_reach:
  assumes "0 < step_size self"
    and "\<bar>min_length self\<bar> \<le> 2 ^ 53" and "\<bar>max_length self\<bar> \<le> 2 ^ 53"
    and "N - split_psn self \<le> 2 ^ 63"
  shows "estimate_locals self N =
       Inr \<lparr> p_1 = (if spec_problem_size self N 1 < 5000000 then poly6_p_1 else linear_p_1),
             p_2 = (if spec_problem_size self N 1 < 5000000 then poly6_p_2 else linear_p_2),
             p_4 = linear_p_4, p_8 = linear_p_8, p_16 = linear_p_16,
             predicted_execution_time_16 =
               polyval linear_p_16 (of_int (spec_problem_size self N 16)),
             predicted_execution_time_8 =
               polyval linear_p_8 (of_int (spec_problem_size self N 8)),
             predicted_execution_time_4 =
               polyval linear_p_4 (of_int (spec_problem_size self N 4)),
             predicted_execution_time_2 =
               polyval (if spec_problem_size self N 1 < 5000000 then poly6_p_2 else linear_p_2)
                 (of_int (spec_problem_size self N 2)),
             predicted_execution_time_1 =
               polyval (if spec_problem_size self N 1 < 5000000 then poly6_p_1 else linear_p_1)
                 (of_int (spec_problem_size self N 1)) \<rparr>"
  by (simp add: estimate_locals_def problem_size_in_reach [OF assms] bind_err_def Let_def)

lemma init_step_size_pos:
  "init min_len max_len step split = Inr self \<Longrightarrow> 0 < step_size self"
  by (auto simp: init_def split: if_splits)

subsection \<open>Problem sizes and coefficient sets\<close>

text \<open>
  C5, as stated, fails outside the reach of floats and of \<^verbatim>\<open>len\<close>. The detector built
  by \<^verbatim>\<open>MADRID(2**53 + 1, 2**53 + 2, 1, split_psn=1)\<close> has one candidate length at
  factor 1 and none at the other factors, so on a series of length 12 the counts of the
  claim give the sizes 10, 0, 0, 0, 0; the source rounds \<^verbatim>\<open>min_length / factor\<close> to a
  float before the ceiling and computes the sizes 20, 5, 3, 2, 1. With
  \<^verbatim>\<open>MADRID(1, 2, 1, split_psn=1)\<close> and a series length of \<open>2\<^sup>6\<^sup>3 + 2\<close> the range of
  start positions has \<open>2\<^sup>6\<^sup>3\<close> elements and \<^verbatim>\<open>len\<close> raises \<^verbatim>\<open>OverflowError\<close>.
\<close>

theorem problem_size_counterexample:
  "init (2 ^ 53 + 1) (2 ^ 53 + 2) 1 (Some 1) =
     Inr \<lparr>min_length = 2 ^ 53 + 1, max_length = 2 ^ 53 + 2, split_psn = 1, step_size = 1\<rparr> \<and>
   map (problem_size
          \<lparr>min_length = 2 ^ 53 + 1, max_length = 2 ^ 53 + 2, split_psn = 1, step_size = 1\<rparr> 12)
     [1, 2, 4, 8, 16] = [Inr 20, Inr 5, Inr 3, Inr 2, Inr 1] \<and>
   map (spec_problem_size
          \<lparr>min_length = 2 ^ 53 + 1, max_length = 2 ^ 53 + 2, split_psn = 1, step_size = 1\<rparr> 12)
     [1, 2, 4, 8, 16] = [10, 0, 0, 0, 0] \<and>
   init 1 2 1 (Some 1) = Inr \<lparr>min_length = 1, max_length = 2, split_psn = 1, step_size = 1\<rparr> \<and>
   problem_size \<lparr>min_length = 1, max_length = 2, split_psn = 1, step_size = 1\<rparr> (2 ^ 63 + 2) 1
     = Inl OverflowError"
  by (simp add: init_def truthy_def problem_size_def spec_problem_size_def count_stepped_eq
      len_range_def range_length_def bind_err_def float_eval_defs)

text \<open>
  C5, amended. For a detector with a positive \<^verbatim>\<open>step_size\<close> (by \<open>init_step_size_pos\<close>,
  every detector the constructor builds), with \<^verbatim>\<open>min_length\<close> and \<^verbatim>\<open>max_length\<close> at most
  \<open>2\<^sup>5\<^sup>3\<close> in absolute value, and a series length \<open>N\<close> with \<open>N - split_psn \<le> 2\<^sup>6\<^sup>3\<close>,
  the estimator raises nothing and the problem size it computes at each factor \<open>f\<close> of
  1, 2, 4, 8, 16 is the count of integers in \<open>[1, N - split_psn)\<close> stepped by \<open>f\<close> times
  the count of integers in \<open>[\<lceil>min_length / f\<rceil>, \<lceil>max_length / f\<rceil>)\<close> stepped by
  \<^verbatim>\<open>step_size\<close>. Factors 1 and 2 are evaluated with the degree-6 coefficient sets exactly
  when the factor-1 problem size is below 5,000,000 and with the linear sets otherwise
  (the sets differ); factors 4, 8 and 16 always with their own linear sets.
\<close>

theorem estimate_locals_eq:
  assumes "0 < step_size self"
    and "\<bar>min_length self\<bar> \<le> 2 ^ 53" and "\<bar>max_length self\<bar> \<le> 2 ^ 53"
    and "N - split_psn self \<le> 2 ^ 63"
  shows "problem_size self N 1 = Inr (spec_problem_size self N 1) \<and>
     problem_size self N 2 = Inr (spec_problem_size self N 2) \<and>
     problem_size self N 4 = Inr (spec_problem_size self N 4) \<and>
     problem_size self N 8 = Inr (spec_problem_size self N 8) \<and>
     problem_size self N 16 = Inr (spec_problem_size self N 16) \<and>
     estimate_locals self N =
       Inr \<lparr> p_1 = (if spec_problem_size self N 1 < 5000000 then poly6_p_1 else linear_p_1),
             p_2 = (if spec_problem_size self N 1 < 5000000 then poly6_p_2 else linear_p_2),
             p_4 = linear_p_4, p_8 = linear_p_8, p_16 = linear_p_16,
             predicted_execution_time_16 =
               polyval linear_p_16 (of_int (spec_problem_size self N 16)),
             predicted_execution_time_8 =
               polyval linear_p_8 (of_int (spec_problem_size self N 8)),
             predicted_execution_time_4 =
               polyval linear_p_4 (of_int (spec_problem_size self N 4)),
             predicted_execution_time_2 =
               polyval (if spec_problem_size self N 1 < 5000000 then poly6_p_2 else linear_p_2)
                 (of_int (spec_problem_size self N 2)),
             predicted_execution_time_1 =
               polyval (if spec_problem_size self N 1 < 5000000 then poly6_p_1 else linear_p_1)
                 (of_int (spec_problem_size self N 1)) \<rparr> \<and>
     poly6_p_1 \<noteq> linear_p_1 \<and> poly6_p_2 \<noteq> linear_p_2"
proof -
  have "poly6_p_1 \<noteq> linear_p_1" "poly6_p_2 \<noteq> linear_p_2"
    by (simp_all add: poly6_p_1_def poly6_p_2_def linear_p_1_def linear_p_2_def)
  then show ?thesis
    by (simp only: problem_size_in_reach [OF assms] estimate_locals_in_reach [OF assms]
        simp_thms not_False_eq_True)
qed

theorem estimate_locals_eq_witness:
  "0 < step_size \<lparr>min_length = 50, max_length = 60, split_psn = 61, step_size = 1\<rparr> \<and>
   \<bar>min_length \<lparr>min_length = 50, max_length = 60, split_psn = 61, step_size = 1\<rparr>\<bar> \<le> 2 ^ 53 \<and>
   \<bar>max_length \<lparr>min_length = 50, max_length = 60, split_psn = 61, step_size = 1\<rparr>\<bar> \<le> 2 ^ 53 \<and>
   1000 - split_psn \<lparr>min_length = 50, max_length = 60, split_psn = 61, step_size = 1\<rparr> \<le> 2 ^ 63 \<and>
   map (problem_size \<lparr>min_length = 50, max_length = 60, split_psn = 61, step_size = 1\<rparr> 1000)
     [1, 2, 4, 8, 16] = [Inr 9380, Inr 2345, Inr 470, Inr 118, Inr 0] \<and>
   estimate_locals \<lparr>min_length = 50, max_length = 60, split_psn = 61, step_size = 1\<rparr> 1000 =
     Inr \<lparr> p_1 = poly6_p_1, p_2 = poly6_p_2,
           p_4 = linear_p_4, p_8 = linear_p_8, p_16 = linear_p_16,
           predicted_execution_time_16 = polyval linear_p_16 0,
           predicted_execution_time_8 = polyval linear_p_8 118,
           predicted_execution_time_4 = polyval linear_p_4 470,
           predicted_execution_time_2 = polyval poly6_p_2 2345,
           predicted_execution_time_1 = polyval poly6_p_1 9380 \<rparr>"
  using estimate_locals_eq
    [where self = "\<lparr>min_length = 50, max_length = 60, split_psn = 61, step_size = 1\<rparr>"
      and N = 1000]
  by (simp add: spec_problem_size_def count_stepped_eq ceiling_rat_numeral)

subsection \<open>Monotonicity of the problem size\<close>

lemma polyval_linear: "polyval [c, 0] x = c * x"
  by (simp add: polyval_def)

lemma linear_mono:
  assumes "0 \<le> c" "a \<le> b"
  shows "polyval [c, 0] (of_int a) \<le> polyval [c, 0] (of_int b)"
  unfolding polyval_linear using assms by (intro mult_left_mono) simp_all

lemma count_stepped_nonneg: "0 \<le> spec_count_stepped a b s"
  by (simp add: spec_count_stepped_def)

lemma spec_problem_size_nonneg: "0 \<le> spec_problem_size self N f"
  by (simp add: spec_problem_size_def count_stepped_nonneg)

lemma count_stepped_mono_width:
  assumes "0 < s" and "b - a \<le> b' - a'"
  shows "spec_count_stepped a b s \<le> spec_count_stepped a' b' s"
proof -
  have "(b - a - 1) div s \<le> (b' - a' - 1) div s"
    using assms by (intro zdiv_mono1) simp_all
  moreover have "a' < b' \<Longrightarrow> 0 \<le> (b' - a' - 1) div s"
    using assms by (simp add: pos_imp_zdiv_nonneg_iff)
  ultimately show ?thesis
    using assms by (auto simp: count_stepped_eq)
qed

lemma spec_problem_size_mono:
  assumes "0 < f" "N \<le> N'"
  shows "spec_problem_size self N f \<le> spec_problem_size self N' f"
proof -
  have "spec_count_stepped 1 (N - split_psn self) f \<le> spec_count_stepped 1 (N' - split_psn self) f"
    using assms by (intro count_stepped_mono_width) simp_all
  then show ?thesis
    unfolding spec_problem_size_def by (intro mult_right_mono count_stepped_nonneg)
qed

lemma spec_problem_size_2_le_1:
  assumes "0 < step_size self"
  shows "spec_problem_size self N 2 \<le> spec_problem_size self N 1"
proof -
  have "1 < W \<longrightarrow> (W - 2) div 2 + 1 < W" for W :: int
    by presburger
  then have p: "spec_count_stepped 1 (N - split_psn self) 2
                  \<le> spec_count_stepped 1 (N - split_psn self) 1"
    by (simp add: count_stepped_eq)
  have c: "\<lceil>(of_int a / of_int 2 :: rat)\<rceil> = - (- a div 2)" for a :: int
    by (rule ceiling_divide_eq_div)
  have w: "\<lceil>(of_int (max_length self) / of_int 2 :: rat)\<rceil>
             - \<lceil>(of_int (min_length self) / of_int 2 :: rat)\<rceil>
           \<le> max 0 (max_length self - min_length self)"
    unfolding c by linarith
  have l: "spec_count_stepped \<lceil>(of_int (min_length self) / of_int 2 :: rat)\<rceil>
             \<lceil>(of_int (max_length self) / of_int 2 :: rat)\<rceil> (step_size self)
           \<le> spec_count_stepped \<lceil>(of_int (min_length self) / of_int 1 :: rat)\<rceil>
             \<lceil>(of_int (max_length self) / of_int 1 :: rat)\<rceil> (step_size self)"
  proof (cases "min_length self < max_length self")
    case True
    then show ?thesis using w assms by (intro count_stepped_mono_width) simp_all
  next
    case False
    then have "\<lceil>(of_int (max_length self) / of_int 2 :: rat)\<rceil>
                 \<le> \<lceil>(of_int (min_length self) / of_int 2 :: rat)\<rceil>"
      using w by simp
    then show ?thesis using assms False by (simp add: count_stepped_eq)
  qed
  show ?thesis
    unfolding spec_problem_size_def
    by (intro mult_mono p l count_stepped_nonneg)
qed

subsection \<open>Sequences with second differences of one sign\<close>

lemma steps_mono:
  fixes g :: "nat \<Rightarrow> rat"
  assumes "\<And>n. L \<le> n \<Longrightarrow> n < U \<Longrightarrow> g n \<le> g (Suc n)"
    and "L \<le> m" and "m \<le> n" and "n \<le> U"
  shows "g m \<le> g n"
  using assms(3,4)
proof (induction n)
  case 0
  then show ?case by simp
next
  case (Suc n)
  show ?case
  proof (cases "m = Suc n")
    case True
    then show ?thesis by simp
  next
    case False
    then have "m \<le> n" using Suc.prems by simp
    then have "g m \<le> g n" using Suc by simp
    also have "g n \<le> g (Suc n)" using assms(1) [of n] assms(2) \<open>m \<le> n\<close> Suc.prems by simp
    finally show ?thesis .
  qed
qed

lemma concave_steps:
  fixes g :: "nat \<Rightarrow> rat"
  assumes D: "\<And>n. n + 2 \<le> K \<Longrightarrow> g (n + 2) - g (n + 1) \<le> g (n + 1) - g n"
    and last: "g (K - 1) \<le> g K"
  shows "n < K \<Longrightarrow> g n \<le> g (Suc n)"
proof -
  have "\<And>n. n + j + 1 = K \<Longrightarrow> g n \<le> g (Suc n)" for j
  proof (induction j)
    case 0
    then show ?case using last by auto
  next
    case (Suc j)
    have "g (Suc n) \<le> g (Suc (Suc n))" using Suc.IH [of "Suc n"] Suc.prems by simp
    moreover have "g (n + 2) - g (n + 1) \<le> g (n + 1) - g n"
      using D [of n] Suc.prems by simp
    ultimately show ?case by simp
  qed
  then show "n < K \<Longrightarrow> g n \<le> g (Suc n)"
    by (metis Suc_eq_plus1 less_iff_Suc_add add.assoc add_Suc_right)
qed

lemma convex_steps:
  fixes g :: "nat \<Rightarrow> rat"
  assumes D: "\<And>n. L \<le> n \<Longrightarrow> n + 2 \<le> U \<Longrightarrow> g (n + 1) - g n \<le> g (n + 2) - g (n + 1)"
    and first: "g L \<le> g (Suc L)"
  shows "L \<le> n \<Longrightarrow> n < U \<Longrightarrow> g n \<le> g (Suc n)"
proof (induction n rule: dec_induct)
  case base
  then show ?case using first by simp
next
  case (step n)
  have "g n \<le> g (Suc n)" using step by simp
  moreover have "g (n + 1) - g n \<le> g (n + 2) - g (n + 1)"
    using D [of n] step by simp
  ultimately show ?case by simp
qed

subsection \<open>The degree-6 polynomials\<close>

lemma polyval_poly6:
  "polyval [a6, a5, a4, a3, a2, a1, a0] x =
     a6 * x ^ 6 + a5 * x ^ 5 + a4 * x ^ 4 + a3 * x ^ 3 + a2 * x ^ 2 + a1 * x + a0"
  by (simp add: polyval_def eval_nat_numeral algebra_simps)

lemma poly6_second_difference:
  "polyval [a6, a5, a4, a3, a2, a1, a0] (x + 2) - polyval [a6, a5, a4, a3, a2, a1, a0] (x + 1)
     - (polyval [a6, a5, a4, a3, a2, a1, a0] (x + 1) - polyval [a6, a5, a4, a3, a2, a1, a0] x) =
   a6 * (30 * x ^ 4 + 120 * x ^ 3 + 210 * x ^ 2 + 180 * x + 62) +
   a5 * (20 * x ^ 3 + 60 * x ^ 2 + 70 * x + 30) +
   a4 * (12 * x ^ 2 + 24 * x + 14) + a3 * (6 * x + 6) + 2 * a2"
  unfolding polyval_poly6 by algebra

lemma poly6_second_difference_bounds:
  fixes x :: rat
  assumes "a6 \<le> 0" "0 \<le> a5" "a4 \<le> 0" "0 \<le> a3" and "0 \<le> l" "l \<le> x" "x \<le> u"
  shows "a6 * (30 * u ^ 4 + 120 * u ^ 3 + 210 * u ^ 2 + 180 * u + 62) +
         a5 * (20 * l ^ 3 + 60 * l ^ 2 + 70 * l + 30) +
         a4 * (12 * u ^ 2 + 24 * u + 14) + a3 * (6 * l + 6) + 2 * a2
         \<le> polyval [a6, a5, a4, a3, a2, a1, a0] (x + 2) - polyval [a6, a5, a4, a3, a2, a1, a0] (x + 1)
             - (polyval [a6, a5, a4, a3, a2, a1, a0] (x + 1) - polyval [a6, a5, a4, a3, a2, a1, a0] x)"
    and "polyval [a6, a5, a4, a3, a2, a1, a0] (x + 2) - polyval [a6, a5, a4, a3, a2, a1, a0] (x + 1)
             - (polyval [a6, a5, a4, a3, a2, a1, a0] (x + 1) - polyval [a6, a5, a4, a3, a2, a1, a0] x)
         \<le> a6 * (30 * l ^ 4 + 120 * l ^ 3 + 210 * l ^ 2 + 180 * l + 62) +
         a5 * (20 * u ^ 3 + 60 * u ^ 2 + 70 * u + 30) +
         a4 * (12 * l ^ 2 + 24 * l + 14) + a3 * (6 * u + 6) + 2 * a2"
proof -
  have x: "0 \<le> x" using assms by simp
  have pl: "l ^ k \<le> x ^ k" and pu: "x ^ k \<le> u ^ k" for k
    using assms x by (simp_all add: power_mono)
  have q6l: "30 * l ^ 4 + 120 * l ^ 3 + 210 * l ^ 2 + 180 * l + 62
             \<le> 30 * x ^ 4 + 120 * x ^ 3 + 210 * x ^ 2 + 180 * x + 62"
    using pl [of 4] pl [of 3] pl [of 2] assms(6) by linarith
  have q6u: "30 * x ^ 4 + 120 * x ^ 3 + 210 * x ^ 2 + 180 * x + 62
             \<le> 30 * u ^ 4 + 120 * u ^ 3 + 210 * u ^ 2 + 180 * u + 62"
    using pu [of 4] pu [of 3] pu [of 2] assms(7) by linarith
  have q5l: "20 * l ^ 3 + 60 * l ^ 2 + 70 * l + 30 \<le> 20 * x ^ 3 + 60 * x ^ 2 + 70 * x + 30"
    using pl [of 3] pl [of 2] assms(6) by linarith
  have q5u: "20 * x ^ 3 + 60 * x ^ 2 + 70 * x + 30 \<le> 20 * u ^ 3 + 60 * u ^ 2 + 70 * u + 30"
    using pu [of 3] pu [of 2] assms(7) by linarith
  have q4l: "12 * l ^ 2 + 24 * l + 14 \<le> 12 * x ^ 2 + 24 * x + 14"
    using pl [of 2] assms(6) by linarith
  have q4u: "12 * x ^ 2 + 24 * x + 14 \<le> 12 * u ^ 2 + 24 * u + 14"
    using pu [of 2] assms(7) by linarith
  have q3l: "6 * l + 6 \<le> 6 * x + 6" and q3u: "6 * x + 6 \<le> 6 * u + 6"
    using assms(6,7) by simp_all
  show "a6 * (30 * u ^ 4 + 120 * u ^ 3 + 210 * u ^ 2 + 180 * u + 62) +
         a5 * (20 * l ^ 3 + 60 * l ^ 2 + 70 * l + 30) +
         a4 * (12 * u ^ 2 + 24 * u + 14) + a3 * (6 * l + 6) + 2 * a2
         \<le> polyval [a6, a5, a4, a3, a2, a1, a0] (x + 2) - polyval [a6, a5, a4, a3, a2, a1, a0] (x + 1)
             - (polyval [a6, a5, a4, a3, a2, a1, a0] (x + 1) - polyval [a6, a5, a4, a3, a2, a1, a0] x)"
    unfolding poly6_second_difference
    by (intro add_mono order_refl mult_left_mono mult_left_mono_neg q6u q5l q4u q3l assms)
  show "polyval [a6, a5, a4, a3, a2, a1, a0] (x + 2) - polyval [a6, a5, a4, a3, a2, a1, a0] (x + 1)
             - (polyval [a6, a5, a4, a3, a2, a1, a0] (x + 1) - polyval [a6, a5, a4, a3, a2, a1, a0] x)
         \<le> a6 * (30 * l ^ 4 + 120 * l ^ 3 + 210 * l ^ 2 + 180 * l + 62) +
         a5 * (20 * u ^ 3 + 60 * u ^ 2 + 70 * u + 30) +
         a4 * (12 * l ^ 2 + 24 * l + 14) + a3 * (6 * u + 6) + 2 * a2"
    unfolding poly6_second_difference
    by (intro add_mono order_refl mult_left_mono mult_left_mono_neg q6l q5u q4l q3u assms)
qed

lemma poly6_upper:
  fixes x :: rat
  assumes "a6 \<le> 0" "0 \<le> a5" "a4 \<le> 0" "0 \<le> a3" "a2 \<le> 0" "0 \<le> a1"
    and "0 \<le> l" "l \<le> x" "x \<le> u"
  shows "polyval [a6, a5, a4, a3, a2, a1, a0] x
         \<le> a6 * l ^ 6 + a5 * u ^ 5 + a4 * l ^ 4 + a3 * u ^ 3 + a2 * l ^ 2 + a1 * u + a0"
proof -
  have x: "0 \<le> x" using assms by simp
  have pl: "l ^ k \<le> x ^ k" and pu: "x ^ k \<le> u ^ k" for k
    using assms x by (simp_all add: power_mono)
  show ?thesis
    unfolding polyval_poly6
    by (intro add_mono order_refl mult_left_mono mult_left_mono_neg pl pu assms)
qed

lemma poly6_p_1_steps:
  assumes "n < 2890753"
  shows "polyval poly6_p_1 (of_nat n) \<le> polyval poly6_p_1 (of_nat (Suc n))"
proof (rule concave_steps [where K = 2890753 and g = "\<lambda>n. polyval poly6_p_1 (of_nat n)"])
  fix n :: nat
  assume n: "n + 2 \<le> 2890753"
  have x: "(0::rat) \<le> 0" "(0::rat) \<le> of_nat n" "(of_nat n :: rat) \<le> 2890753"
    using n by (simp_all add: of_nat_le_iff [where ?'a = rat, of n 2890753, simplified])
  have "polyval poly6_p_1 (of_nat n + 2) - polyval poly6_p_1 (of_nat n + 1)
          - (polyval poly6_p_1 (of_nat n + 1) - polyval poly6_p_1 (of_nat n)) \<le> 0"
    unfolding poly6_p_1_def
    by (rule order_trans [OF poly6_second_difference_bounds(2) [OF _ _ _ _ x]]) simp_all
  then show "polyval poly6_p_1 (of_nat (n + 2)) - polyval poly6_p_1 (of_nat (n + 1))
          \<le> polyval poly6_p_1 (of_nat (n + 1)) - polyval poly6_p_1 (of_nat n)"
    by (simp add: add.commute)
next
  show "polyval poly6_p_1 (of_nat (2890753 - 1)) \<le> polyval poly6_p_1 (of_nat 2890753)"
    by (simp add: poly6_p_1_def polyval_def)
next
  show "n < 2890753" by (rule assms)
qed

lemma poly6_p_2_steps_low:
  assumes "n < 638746"
  shows "polyval poly6_p_2 (of_nat n) \<le> polyval poly6_p_2 (of_nat (Suc n))"
proof (rule concave_steps [where K = 638746 and g = "\<lambda>n. polyval poly6_p_2 (of_nat n)"])
  fix n :: nat
  assume n: "n + 2 \<le> 638746"
  have x: "(0::rat) \<le> 0" "(0::rat) \<le> of_nat n" "(of_nat n :: rat) \<le> 638746"
    using n by (simp_all add: of_nat_le_iff [where ?'a = rat, of n 638746, simplified])
  have "polyval poly6_p_2 (of_nat n + 2) - polyval poly6_p_2 (of_nat n + 1)
          - (polyval poly6_p_2 (of_nat n + 1) - polyval poly6_p_2 (of_nat n)) \<le> 0"
    unfolding poly6_p_2_def
    by (rule order_trans [OF poly6_second_difference_bounds(2) [OF _ _ _ _ x]]) simp_all
  then show "polyval poly6_p_2 (of_nat (n + 2)) - polyval poly6_p_2 (of_nat (n + 1))
          \<le> polyval poly6_p_2 (of_nat (n + 1)) - polyval poly6_p_2 (of_nat n)"
    by (simp add: add.commute)
next
  show "polyval poly6_p_2 (of_nat (638746 - 1)) \<le> polyval poly6_p_2 (of_nat 638746)"
    by (simp add: poly6_p_2_def polyval_def)
next
  show "n < 638746" by (rule assms)
qed

lemma poly6_p_2_convex_piece:
  fixes x :: rat
  assumes "0 \<le> l" "l \<le> x" "x \<le> u"
    and "0 \<le> - 3.79100071825804 / 10 ^ 42 * (30 * u ^ 4 + 120 * u ^ 3 + 210 * u ^ 2 + 180 * u + 62) +
         3.15547030055575 / 10 ^ 33 * (20 * l ^ 3 + 60 * l ^ 2 + 70 * l + 30) +
         - 6.62877819318290 / 10 ^ 25 * (12 * u ^ 2 + 24 * u + 14) +
         2.59437174380763 / 10 ^ 17 * (6 * l + 6) + 2 * (- 8.10970871564789 / 10 ^ 11)"
  shows "polyval poly6_p_2 (x + 1) - polyval poly6_p_2 x
         \<le> polyval poly6_p_2 (x + 2) - polyval poly6_p_2 (x + 1)"
proof -
  have "0 \<le> polyval poly6_p_2 (x + 2) - polyval poly6_p_2 (x + 1)
          - (polyval poly6_p_2 (x + 1) - polyval poly6_p_2 x)"
    unfolding poly6_p_2_def
    by (rule order_trans [OF assms(4) poly6_second_difference_bounds(1) [OF _ _ _ _ assms(1-3)]])
      simp_all
  then show ?thesis by simp
qed

lemma poly6_p_2_steps_high:
  assumes "1576793 \<le> n" and "n < 5000000"
  shows "polyval poly6_p_2 (of_nat n) \<le> polyval poly6_p_2 (of_nat (Suc n))"
proof (rule convex_steps [where L = 1576793 and U = 5000000
      and g = "\<lambda>n. polyval poly6_p_2 (of_nat n)"])
  fix n :: nat
  assume n: "1576793 \<le> n" "n + 2 \<le> 5000000"
  have lo: "(1576793::rat) \<le> of_nat n"
    using n(1) by (simp add: of_nat_le_iff [where ?'a = rat, of 1576793 n, simplified])
  have hi: "(of_nat n :: rat) \<le> 5000000"
    using n(2) by (simp add: of_nat_le_iff [where ?'a = rat, of n 5000000, simplified])
  consider "(of_nat n :: rat) \<le> 3200000" | "(3200000::rat) \<le> of_nat n" "(of_nat n :: rat) \<le> 4900000"
    | "(4900000::rat) \<le> of_nat n"
    by linarith
  then have "polyval poly6_p_2 (of_nat n + 1) - polyval poly6_p_2 (of_nat n)
          \<le> polyval poly6_p_2 (of_nat n + 2) - polyval poly6_p_2 (of_nat n + 1)"
  proof cases
    case 1
    show ?thesis
      by (rule poly6_p_2_convex_piece [where l = 1576793 and u = 3200000, OF _ lo 1]) simp_all
  next
    case 2
    show ?thesis
      by (rule poly6_p_2_convex_piece [where l = 3200000 and u = 4900000, OF _ 2]) simp_all
  next
    case 3
    show ?thesis
      by (rule poly6_p_2_convex_piece [where l = 4900000 and u = 5000000, OF _ 3 hi]) simp_all
  qed
  then show "polyval poly6_p_2 (of_nat (n + 1)) - polyval poly6_p_2 (of_nat n)
          \<le> polyval poly6_p_2 (of_nat (n + 2)) - polyval poly6_p_2 (of_nat (n + 1))"
    by (simp add: add.commute)
next
  show "polyval poly6_p_2 (of_nat 1576793) \<le> polyval poly6_p_2 (of_nat (Suc 1576793))"
    by (simp add: poly6_p_2_def polyval_def)
next
  show "1576793 \<le> n" "n < 5000000" by (rule assms)+
qed

lemma poly6_p_1_piece:
  fixes x :: rat
  assumes "0 \<le> l" "l \<le> x" "x \<le> u"
    and "- 4.66922312132205 / 10 ^ 45 * l ^ 6 + 1.54665628995475 / 10 ^ 35 * u ^ 5 +
         - 1.29314859463985 / 10 ^ 26 * l ^ 4 + 2.01592418847342 / 10 ^ 18 * u ^ 3 +
         - 2.54253065977245 / 10 ^ 11 * l ^ 2 + 9.77027495487874 / 10 ^ 5 * u +
         - 1.27055582771851 / 10 ^ 5 \<le> b"
  shows "polyval poly6_p_1 x \<le> b"
  unfolding poly6_p_1_def
  by (rule order_trans [OF poly6_upper [OF _ _ _ _ _ _ assms(1-3)] assms(4)]) simp_all

lemma poly6_p_1_upper:
  fixes x :: rat
  assumes "0 \<le> x" and "x \<le> 5000000"
  shows "polyval poly6_p_1 x \<le> polyval linear_p_1 5000000"
proof -
  consider "x \<le> 1800000" | "1800000 \<le> x" "x \<le> 2500000" | "2500000 \<le> x" "x \<le> 3000000"
    | "3000000 \<le> x" "x \<le> 3400000" | "3400000 \<le> x" "x \<le> 3800000"
    | "3800000 \<le> x" "x \<le> 4200000" | "4200000 \<le> x" "x \<le> 4600000"
    | "4600000 \<le> x" "x \<le> 4900000" | "4900000 \<le> x"
    by linarith
  then show ?thesis
  proof cases
    case 1
    show ?thesis
      by (rule poly6_p_1_piece [where l = 0 and u = 1800000, OF _ assms(1) 1])
        (simp_all add: linear_p_1_def polyval_def)
  next
    case 2
    show ?thesis
      by (rule poly6_p_1_piece [where l = 1800000 and u = 2500000, OF _ 2])
        (simp_all add: linear_p_1_def polyval_def)
  next
    case 3
    show ?thesis
      by (rule poly6_p_1_piece [where l = 2500000 and u = 3000000, OF _ 3])
        (simp_all add: linear_p_1_def polyval_def)
  next
    case 4
    show ?thesis
      by (rule poly6_p_1_piece [where l = 3000000 and u = 3400000, OF _ 4])
        (simp_all add: linear_p_1_def polyval_def)
  next
    case 5
    show ?thesis
      by (rule poly6_p_1_piece [where l = 3400000 and u = 3800000, OF _ 5])
        (simp_all add: linear_p_1_def polyval_def)
  next
    case 6
    show ?thesis
      by (rule poly6_p_1_piece [where l = 3800000 and u = 4200000, OF _ 6])
        (simp_all add: linear_p_1_def polyval_def)
  next
    case 7
    show ?thesis
      by (rule poly6_p_1_piece [where l = 4200000 and u = 4600000, OF _ 7])
        (simp_all add: linear_p_1_def polyval_def)
  next
    case 8
    show ?thesis
      by (rule poly6_p_1_piece [where l = 4600000 and u = 4900000, OF _ 8])
        (simp_all add: linear_p_1_def polyval_def)
  next
    case 9
    show ?thesis
      by (rule poly6_p_1_piece [where l = 4900000 and u = 5000000, OF _ 9 assms(2)])
        (simp_all add: linear_p_1_def polyval_def)
  qed
qed

lemma poly6_p_1_mono:
  assumes "0 \<le> a" "a \<le> b" "b \<le> 2890753"
  shows "polyval poly6_p_1 (of_int a) \<le> polyval poly6_p_1 (of_int b)"
proof -
  have "polyval poly6_p_1 (of_nat (nat a)) \<le> polyval poly6_p_1 (of_nat (nat b))"
  proof (rule steps_mono [where L = 0 and U = 2890753 and g = "\<lambda>n. polyval poly6_p_1 (of_nat n)"])
    show "polyval poly6_p_1 (of_nat n) \<le> polyval poly6_p_1 (of_nat (Suc n))"
      if "0 \<le> n" "n < 2890753" for n
      using that by (intro poly6_p_1_steps)
    show "0 \<le> nat a" "nat a \<le> nat b" "nat b \<le> 2890753"
      using assms by simp_all
  qed
  then show ?thesis using assms by simp
qed

lemma poly6_p_2_mono_low:
  assumes "0 \<le> a" "a \<le> b" "b \<le> 638746"
  shows "polyval poly6_p_2 (of_int a) \<le> polyval poly6_p_2 (of_int b)"
proof -
  have "polyval poly6_p_2 (of_nat (nat a)) \<le> polyval poly6_p_2 (of_nat (nat b))"
  proof (rule steps_mono [where L = 0 and U = 638746 and g = "\<lambda>n. polyval poly6_p_2 (of_nat n)"])
    show "polyval poly6_p_2 (of_nat n) \<le> polyval poly6_p_2 (of_nat (Suc n))"
      if "0 \<le> n" "n < 638746" for n
      using that by (intro poly6_p_2_steps_low)
    show "0 \<le> nat a" "nat a \<le> nat b" "nat b \<le> 638746"
      using assms by simp_all
  qed
  then show ?thesis using assms by simp
qed

lemma poly6_p_2_mono_high:
  assumes "1576793 \<le> a" "a \<le> b" "b \<le> 5000000"
  shows "polyval poly6_p_2 (of_int a) \<le> polyval poly6_p_2 (of_int b)"
proof -
  have "polyval poly6_p_2 (of_nat (nat a)) \<le> polyval poly6_p_2 (of_nat (nat b))"
  proof (rule steps_mono [where L = 1576793 and U = 5000000 and g = "\<lambda>n. polyval poly6_p_2 (of_nat n)"])
    show "polyval poly6_p_2 (of_nat n) \<le> polyval poly6_p_2 (of_nat (Suc n))"
      if "1576793 \<le> n" "n < 5000000" for n
      using that by (intro poly6_p_2_steps_high)
    show "1576793 \<le> nat a" "nat a \<le> nat b" "nat b \<le> 5000000"
      using assms by simp_all
  qed
  then show ?thesis using assms by simp
qed

lemma poly6_p_1_switch:
  assumes "0 \<le> a" "a < 5000000" "5000000 \<le> b"
  shows "polyval poly6_p_1 (of_int a) \<le> polyval linear_p_1 (of_int b)"
proof -
  have "polyval poly6_p_1 (of_int a) \<le> polyval linear_p_1 5000000"
    using assms by (intro poly6_p_1_upper) simp_all
  also have "\<dots> = polyval linear_p_1 (of_int 5000000)" by simp
  also have "\<dots> \<le> polyval linear_p_1 (of_int b)"
    unfolding linear_p_1_def by (rule linear_mono) (simp_all add: assms)
  finally show ?thesis .
qed

subsection \<open>Monotonicity of the predicted times\<close>

text \<open>
  C9, as stated, fails. The detector built by \<^verbatim>\<open>MADRID(50, 60)\<close> has a factor-1 problem
  size of 3,000,000 on a series of length 300,062 and of 4,000,000 on one of length
  400,062, both in the polynomial regime; the degree-6 polynomials decrease there, and the
  predicted times for factor 1 (about 117.7 and 109.7 seconds) and for factor 2 (about
  19.5 and 16.7 seconds) go down as the series gets longer.
\<close>

theorem predicted_time_mono_counterexample:
  "init 50 60 1 None = Inr \<lparr>min_length = 50, max_length = 60, split_psn = 61, step_size = 1\<rparr> \<and>
   map_sum id predicted_execution_time_1
     (estimate_locals \<lparr>min_length = 50, max_length = 60, split_psn = 61, step_size = 1\<rparr> 300062)
     = Inr (2353334685186568378272511 / 20000000000000000000000) \<and>
   map_sum id predicted_execution_time_1
     (estimate_locals \<lparr>min_length = 50, max_length = 60, split_psn = 61, step_size = 1\<rparr> 400062)
     = Inr (137163232776614273149729 / 1250000000000000000000) \<and>
   (137163232776614273149729 / 1250000000000000000000 :: rat)
     < 2353334685186568378272511 / 20000000000000000000000 \<and>
   map_sum id predicted_execution_time_2
     (estimate_locals \<lparr>min_length = 50, max_length = 60, split_psn = 61, step_size = 1\<rparr> 300062)
     = Inr (9994100567887630772284817 / 512000000000000000000000) \<and>
   map_sum id predicted_execution_time_2
     (estimate_locals \<lparr>min_length = 50, max_length = 60, split_psn = 61, step_size = 1\<rparr> 400062)
     = Inr (4180333981302859470609 / 250000000000000000000) \<and>
   (4180333981302859470609 / 250000000000000000000 :: rat)
     < 9994100567887630772284817 / 512000000000000000000000"
  by (simp add: init_def truthy_def estimate_locals_in_reach spec_problem_size_def
      count_stepped_eq polyval_def poly6_p_1_def poly6_p_2_def)

text \<open>
  The predicted time for factor 2 can also fall where the regime switches. The detector
  built by \<^verbatim>\<open>MADRID(1, 2)\<close> has no candidate length at factor 2, so its factor-2 problem
  size is 0 on every series: the degree-6 polynomial gives its constant term on a series
  of length 10, and the linear model gives 0 on one of length 5,000,004, where the
  factor-1 problem size reaches 5,000,000.
\<close>

lemma predicted_time_2_falls_at_switch:
  "init 1 2 1 None = Inr \<lparr>min_length = 1, max_length = 2, split_psn = 3, step_size = 1\<rparr> \<and>
   map_sum id predicted_execution_time_2
     (estimate_locals \<lparr>min_length = 1, max_length = 2, split_psn = 3, step_size = 1\<rparr> 10)
     = Inr (4.68415490390476 / 10 ^ 7) \<and>
   map_sum id predicted_execution_time_2
     (estimate_locals \<lparr>min_length = 1, max_length = 2, split_psn = 3, step_size = 1\<rparr> 5000004)
     = Inr 0"
  by (simp add: init_def truthy_def estimate_locals_in_reach spec_problem_size_def
      count_stepped_eq ceiling_rat_numeral polyval_def poly6_p_2_def linear_p_2_def)

text \<open>
  The degree-6 polynomial of factor 1 rises up to the problem size 2,890,753 and falls
  from there; that of factor 2 rises up to 638,746, falls down to 1,576,793 and rises
  again from there.
\<close>

lemma poly6_turning_points:
  "polyval poly6_p_1 2890752 < polyval poly6_p_1 2890753"
  "polyval poly6_p_1 2890754 < polyval poly6_p_1 2890753"
  "polyval poly6_p_2 638745 < polyval poly6_p_2 638746"
  "polyval poly6_p_2 638747 < polyval poly6_p_2 638746"
  "polyval poly6_p_2 1576793 < polyval poly6_p_2 1576792"
  "polyval poly6_p_2 1576793 < polyval poly6_p_2 1576794"
  by (simp_all add: polyval_def poly6_p_1_def poly6_p_2_def)

text \<open>
  C9, amended. Take a detector with a positive \<^verbatim>\<open>step_size\<close>, with \<^verbatim>\<open>min_length\<close> and
  \<^verbatim>\<open>max_length\<close> at most \<open>2\<^sup>5\<^sup>3\<close> in absolute value, and two series lengths \<open>N \<le> N'\<close> with
  \<open>N' - split_psn \<le> 2\<^sup>6\<^sup>3\<close>. The estimator computes its predictions on both, and from \<open>N\<close>
  to \<open>N'\<close>
  \<^item> the predicted times for the factors 4, 8 and 16 never decrease;
  \<^item> the predicted time for factor 1 never decreases when the factor-1 problem size at
    \<open>N'\<close> is at most 2,890,753 (where the degree-6 polynomial still rises) or at least
    5,000,000 (the linear regime at \<open>N'\<close>, whatever the regime at \<open>N\<close>);
  \<^item> the predicted time for factor 2 never decreases when the factor-1 problem size at
    \<open>N\<close> is at least 5,000,000 (the linear regime at both lengths), or when the factor-1
    problem size at \<open>N'\<close> is below 5,000,000 (the polynomial regime at both lengths) and
    the factor-2 problem size either is at most 638,746 at \<open>N'\<close> or is at least 1,576,793
    at \<open>N\<close> (the two stretches on which the degree-6 polynomial rises).
\<close>

theorem predicted_time_mono:
  assumes step: "0 < step_size self"
    and mn: "\<bar>min_length self\<bar> \<le> 2 ^ 53" and mx: "\<bar>max_length self\<bar> \<le> 2 ^ 53"
    and le: "N \<le> N'" and reach: "N' - split_psn self \<le> 2 ^ 63"
  shows "\<exists>L L'. estimate_locals self N = Inr L \<and> estimate_locals self N' = Inr L' \<and>
           predicted_execution_time_16 L \<le> predicted_execution_time_16 L' \<and>
           predicted_execution_time_8 L \<le> predicted_execution_time_8 L' \<and>
           predicted_execution_time_4 L \<le> predicted_execution_time_4 L' \<and>
           (spec_problem_size self N' 1 \<le> 2890753 \<or> 5000000 \<le> spec_problem_size self N' 1 \<longrightarrow>
              predicted_execution_time_1 L \<le> predicted_execution_time_1 L') \<and>
           (5000000 \<le> spec_problem_size self N 1 \<or>
            spec_problem_size self N' 1 < 5000000 \<and>
              (spec_problem_size self N' 2 \<le> 638746 \<or> 1576793 \<le> spec_problem_size self N 2) \<longrightarrow>
              predicted_execution_time_2 L \<le> predicted_execution_time_2 L')"
proof -
  have reach_N: "N - split_psn self \<le> 2 ^ 63" using le reach by simp
  note EL = estimate_locals_in_reach [OF step mn mx reach_N]
  note EL' = estimate_locals_in_reach [OF step mn mx reach]
  have m: "spec_problem_size self N f \<le> spec_problem_size self N' f" if "0 < f" for f
    using spec_problem_size_mono [OF that le] .
  note nn = spec_problem_size_nonneg [of self]
  have t16: "polyval linear_p_16 (of_int (spec_problem_size self N 16))
      \<le> polyval linear_p_16 (of_int (spec_problem_size self N' 16))"
    unfolding linear_p_16_def by (rule linear_mono) (simp_all add: m)
  have t8: "polyval linear_p_8 (of_int (spec_problem_size self N 8))
      \<le> polyval linear_p_8 (of_int (spec_problem_size self N' 8))"
    unfolding linear_p_8_def by (rule linear_mono) (simp_all add: m)
  have t4: "polyval linear_p_4 (of_int (spec_problem_size self N 4))
      \<le> polyval linear_p_4 (of_int (spec_problem_size self N' 4))"
    unfolding linear_p_4_def by (rule linear_mono) (simp_all add: m)
  have l2: "polyval linear_p_2 (of_int (spec_problem_size self N 2))
      \<le> polyval linear_p_2 (of_int (spec_problem_size self N' 2))"
    unfolding linear_p_2_def by (rule linear_mono) (simp_all add: m)
  have l1: "polyval linear_p_1 (of_int (spec_problem_size self N 1))
      \<le> polyval linear_p_1 (of_int (spec_problem_size self N' 1))"
    unfolding linear_p_1_def by (rule linear_mono) (simp_all add: m)
  have t1: "polyval (if spec_problem_size self N 1 < 5000000 then poly6_p_1 else linear_p_1)
        (of_int (spec_problem_size self N 1))
      \<le> polyval (if spec_problem_size self N' 1 < 5000000 then poly6_p_1 else linear_p_1)
        (of_int (spec_problem_size self N' 1))"
    if c: "spec_problem_size self N' 1 \<le> 2890753 \<or> 5000000 \<le> spec_problem_size self N' 1"
  proof -
    consider "spec_problem_size self N' 1 \<le> 2890753"
      | "spec_problem_size self N 1 < 5000000" "5000000 \<le> spec_problem_size self N' 1"
      | "5000000 \<le> spec_problem_size self N 1"
      using c by linarith
    then show ?thesis
    proof cases
      case 1
      have "polyval poly6_p_1 (of_int (spec_problem_size self N 1))
          \<le> polyval poly6_p_1 (of_int (spec_problem_size self N' 1))"
        by (rule poly6_p_1_mono [OF nn m 1]) simp
      then show ?thesis using 1 m [of 1] by simp
    next
      case 2
      have "polyval poly6_p_1 (of_int (spec_problem_size self N 1))
          \<le> polyval linear_p_1 (of_int (spec_problem_size self N' 1))"
        by (rule poly6_p_1_switch [OF nn 2])
      then show ?thesis using 2 by simp
    next
      case 3
      then show ?thesis using l1 m [of 1] by simp
    qed
  qed
  have t2: "polyval (if spec_problem_size self N 1 < 5000000 then poly6_p_2 else linear_p_2)
        (of_int (spec_problem_size self N 2))
      \<le> polyval (if spec_problem_size self N' 1 < 5000000 then poly6_p_2 else linear_p_2)
        (of_int (spec_problem_size self N' 2))"
    if c: "5000000 \<le> spec_problem_size self N 1 \<or>
            spec_problem_size self N' 1 < 5000000 \<and>
              (spec_problem_size self N' 2 \<le> 638746 \<or> 1576793 \<le> spec_problem_size self N 2)"
  proof -
    consider "5000000 \<le> spec_problem_size self N 1"
      | "spec_problem_size self N' 1 < 5000000" "spec_problem_size self N' 2 \<le> 638746"
      | "spec_problem_size self N' 1 < 5000000" "1576793 \<le> spec_problem_size self N 2"
      using c by blast
    then show ?thesis
    proof cases
      case 1
      then show ?thesis using l2 m [of 1] by simp
    next
      case 2
      have "polyval poly6_p_2 (of_int (spec_problem_size self N 2))
          \<le> polyval poly6_p_2 (of_int (spec_problem_size self N' 2))"
        by (rule poly6_p_2_mono_low [OF nn m 2(2)]) simp
      then show ?thesis using 2(1) m [of 1] by simp
    next
      case 3
      have "spec_problem_size self N' 2 \<le> 5000000"
        using spec_problem_size_2_le_1 [OF step, of N'] 3(1) by simp
      then have "polyval poly6_p_2 (of_int (spec_problem_size self N 2))
          \<le> polyval poly6_p_2 (of_int (spec_problem_size self N' 2))"
        by (intro poly6_p_2_mono_high 3(2) m) simp_all
      then show ?thesis using 3(1) m [of 1] by simp
    qed
  qed
  show ?thesis
    unfolding EL EL'
    apply (intro exI conjI impI)
          apply (rule refl)
         apply (rule refl)
        apply (simp add: t16)
       apply (simp add: t8)
      apply (simp add: t4)
     apply (simp only: estimate.select_convs)
     apply (erule t1)
    apply (simp only: estimate.select_convs)
    apply (erule t2)
    done
qed

theorem predicted_time_mono_witness:
  "0 < step_size \<lparr>min_length = 50, max_length = 60, split_psn = 61, step_size = 1\<rparr> \<and>
   \<bar>min_length \<lparr>min_length = 50, max_length = 60, split_psn = 61, step_size = 1\<rparr>\<bar> \<le> 2 ^ 53 \<and>
   \<bar>max_length \<lparr>min_length = 50, max_length = 60, split_psn = 61, step_size = 1\<rparr>\<bar> \<le> 2 ^ 53 \<and>
   (100062::int) \<le> 200062 \<and>
   200062 - split_psn \<lparr>min_length = 50, max_length = 60, split_psn = 61, step_size = 1\<rparr> \<le> 2 ^ 63 \<and>
   spec_problem_size \<lparr>min_length = 50, max_length = 60, split_psn = 61, step_size = 1\<rparr> 200062 1
     = 2000000 \<and>
   spec_problem_size \<lparr>min_length = 50, max_length = 60, split_psn = 61, step_size = 1\<rparr> 200062 2
     = 500000 \<and>
   (\<exists>L L'.
      estimate_locals \<lparr>min_length = 50, max_length = 60, split_psn = 61, step_size = 1\<rparr> 100062
        = Inr L \<and>
      estimate_locals \<lparr>min_length = 50, max_length = 60, split_psn = 61, step_size = 1\<rparr> 200062
        = Inr L' \<and>
      predicted_execution_time_16 L \<le> predicted_execution_time_16 L' \<and>
      predicted_execution_time_8 L \<le> predicted_execution_time_8 L' \<and>
      predicted_execution_time_4 L \<le> predicted_execution_time_4 L' \<and>
      predicted_execution_time_1 L \<le> predicted_execution_time_1 L' \<and>
      predicted_execution_time_2 L \<le> predicted_execution_time_2 L')"
  using predicted_time_mono
    [where self = "\<lparr>min_length = 50, max_length = 60, split_psn = 61, step_size = 1\<rparr>"
      and N = 100062 and N' = 200062]
  by (simp add: spec_problem_size_def count_stepped_eq ceiling_rat_numeral)

end
